theory Spec2Isabelle
  imports Complex_Main
begin

section \<open>Go values\<close>

text \<open>
  The updater of pkg/updater/updater.go folds the inflated columns of a test group into a
  grid and scans every row for an open alert. Its data are protocol-buffer messages held
  through pointers; the model keeps them as records and makes every mutation an explicit
  result.

  A Go \<open>int\<close> is a 64-bit counter here that only counts columns and slice lengths, so it is
  an unbounded integer. An \<open>int32\<close> is an integer kept in range by \<open>int32\<close>, which wraps
  around as Go's conversion and arithmetic do. A \<open>float64\<close> is only stored and copied by
  the functions below (\<open>stamp\<close> apart), and is a real number.
\<close>

type_synonym float64 = real

datatype panic = IndexOutOfRange

definition int32 :: "int \<Rightarrow> int" where
  "int32 x = (x + 2 ^ 31) mod 2 ^ 32 - 2 ^ 31"

text \<open>The read \<open>xs[i]\<close> of a slice panics outside of \<open>0 \<le> i < len(xs)\<close>.\<close>

definition sliceAt :: "'a list \<Rightarrow> int \<Rightarrow> panic + 'a" where
  "sliceAt xs i = (if 0 \<le> i \<and> i < int (length xs) then Inr (xs ! nat i) else Inl IndexOutOfRange)"

fun foldE :: "('s \<Rightarrow> 'a \<Rightarrow> panic + 's) \<Rightarrow> 's \<Rightarrow> 'a list \<Rightarrow> panic + 's" where
  "foldE f s [] = Inr s"
| "foldE f s (x # xs) = (case f s x of Inl e \<Rightarrow> Inl e | Inr s' \<Rightarrow> foldE f s' xs)"

section \<open>The messages of pb/state and the updater's own types\<close>

text \<open>
  Modelled from the spec: the enumeration \<open>state.Row_Result\<close> is declared in pb/state, which
  is not among the sources. The spec names the codes NO_RESULT, PASS, FAIL, FLAKY and
  RUNNING; they are numbered here as in the grid's protocol schema. The theorems use only
  that the five codes differ and that NO_RESULT is the zero value of the type.
\<close>

definition Row_NO_RESULT :: int where "Row_NO_RESULT = 0"
definition Row_PASS :: int where "Row_PASS = 1"
definition Row_RUNNING :: int where "Row_RUNNING = 4"
definition Row_FAIL :: int where "Row_FAIL = 12"
definition Row_FLAKY :: int where "Row_FLAKY = 13"

lemmas Row_Result_defs = Row_NO_RESULT_def Row_PASS_def Row_RUNNING_def Row_FAIL_def Row_FLAKY_def

record timestamp_Timestamp =
  Seconds :: int
  Nanos :: int

record state_Column =
  Build :: string
  Started :: float64
  Extra :: "string list"

record state_Metric =
  mName :: string
  Indices :: "int list"
  Values :: "float64 list"

record state_AlertInfo =
  FailCount :: int
  FailBuildId :: string
  FailTime :: "timestamp_Timestamp option"
  FailTestId :: string
  FailureMessage :: string
  PassTime :: "timestamp_Timestamp option"
  PassBuildId :: string

record state_Row =
  Name :: string
  Id_row :: string
  Results :: "int list"
  CellIds :: "string list"
  Messages :: "string list"
  Icons :: "string list"
  Metric :: "string list"
  Metrics :: "state_Metric list"
  AlertInfo :: "state_AlertInfo option"

record state_Grid =
  Columns :: "state_Column list"
  Rows :: "state_Row list"

text \<open>
  A Go map is iterated in an order the language leaves open. The two maps the updater
  ranges over, the cells of a column and the metrics of a cell, are association lists in
  the order of that iteration, so that a theorem about every list is a theorem about every
  order. The keys of a map are distinct.
\<close>

record cell =
  result :: int
  cellID :: string
  icon :: string
  message :: string
  metrics :: "(string \<times> float64) list"

record inflatedColumn =
  column :: state_Column
  cells :: "(string \<times> cell) list"

record configpb_TestGroup =
  NumFailuresToAlert :: int
  NumPassesToDisableAlert :: int

section \<open>appendMetric\<close>

definition appendMetric :: "state_Metric \<Rightarrow> int \<Rightarrow> float64 \<Rightarrow> panic + state_Metric" where
  "appendMetric metric idx v =
    (let ixs = Indices metric; l = int32 (int (length ixs)) in
     if l = 0 then
       Inr (metric\<lparr>Indices := ixs @ [idx, 1], Values := Values metric @ [v]\<rparr>)
     else
       (case sliceAt ixs (l - 2) of
          Inl e \<Rightarrow> Inl e
        | Inr a \<Rightarrow>
            (case sliceAt ixs (l - 1) of
               Inl e \<Rightarrow> Inl e
             | Inr b \<Rightarrow>
                 if int32 (a + b) \<noteq> idx then
                   Inr (metric\<lparr>Indices := ixs @ [idx, 1], Values := Values metric @ [v]\<rparr>)
                 else
                   Inr (metric\<lparr>Indices := ixs[nat (l - 1) := int32 (b + 1)],
                               Values := Values metric @ [v]\<rparr>))))"

section \<open>appendCell\<close>

definition emptyCell :: cell where
  "emptyCell = \<lparr>result = Row_NO_RESULT, cellID = [], icon = [], message = [], metrics = []\<rparr>"

text \<open>
  One turn of the loop over \<open>cell.metrics\<close>: the name joins \<open>row.Metric\<close> unless it is
  there, the first series of that name is looked up in \<open>row.Metrics\<close> (a new one is appended
  when there is none), and the sample is appended to that series in place.
\<close>

fun findMetric :: "state_Metric list \<Rightarrow> string \<Rightarrow> nat option" where
  "findMetric [] metricName = None"
| "findMetric (m # ms) metricName =
     (if mName m = metricName then Some 0 else map_option Suc (findMetric ms metricName))"

definition appendCellMetric :: "state_Row \<Rightarrow> string \<times> float64 \<Rightarrow> panic + state_Row" where
  "appendCellMetric row nm =
    (case nm of (metricName, measurement) \<Rightarrow>
       let row1 = (if metricName \<in> set (Metric row) then row
                   else row\<lparr>Metric := Metric row @ [metricName]\<rparr>);
           row2 = (case findMetric (Metrics row1) metricName of
                     Some k \<Rightarrow> row1
                   | None \<Rightarrow> row1\<lparr>Metrics := Metrics row1 @
                               [\<lparr>mName = metricName, Indices = [], Values = []\<rparr>]\<rparr>);
           k = (case findMetric (Metrics row1) metricName of
                  Some k \<Rightarrow> k | None \<Rightarrow> length (Metrics row1))
       in (case appendMetric (Metrics row2 ! k) (int32 (int (length (CellIds row2)) - 1))
                  measurement of
             Inl e \<Rightarrow> Inl e
           | Inr metric \<Rightarrow> Inr (row2\<lparr>Metrics := (Metrics row2)[k := metric]\<rparr>)))"

text \<open>
  The loop \<open>for i := 0; i < count; i++\<close>, with the turns still to run as its argument.
  In \<open>appendCell\<close> the conversion \<open>int32(cell.result)\<close> changes no value, \<open>Row_Result\<close>
  being an \<open>int32\<close> enumeration.
\<close>

fun appendCellLoop :: "cell \<Rightarrow> nat \<Rightarrow> state_Row \<Rightarrow> panic + state_Row" where
  "appendCellLoop c 0 row = Inr row"
| "appendCellLoop c (Suc k) row =
     (let row1 = row\<lparr>CellIds := CellIds row @ [cellID c]\<rparr> in
      if result c = Row_NO_RESULT then appendCellLoop c k row1
      else case foldE appendCellMetric row1 (metrics c) of
             Inl e \<Rightarrow> Inl e
           | Inr row2 \<Rightarrow>
               appendCellLoop c k
                 (row2\<lparr>Messages := Messages row2 @ [message c], Icons := Icons row2 @ [icon c]\<rparr>))"

definition appendCell :: "state_Row \<Rightarrow> cell \<Rightarrow> int \<Rightarrow> panic + state_Row" where
  "appendCell row c count =
    (let latest = result c; n = int (length (Results row)) in
     case (if n = 0 then Inr (row\<lparr>Results := Results row @ [latest, int32 count]\<rparr>)
           else case sliceAt (Results row) (n - 2) of
                  Inl e \<Rightarrow> Inl e
                | Inr prev \<Rightarrow>
                    if prev \<noteq> latest then
                      Inr (row\<lparr>Results := Results row @ [latest, int32 count]\<rparr>)
                    else
                      Inr (row\<lparr>Results := (Results row)[nat (n - 1) :=
                                  int32 (Results row ! nat (n - 1) + int32 count)]\<rparr>)) of
       Inl e \<Rightarrow> Inl e
     | Inr row1 \<Rightarrow> appendCellLoop c (nat count) row1)"

section \<open>appendColumn\<close>

text \<open>
  The grid holds its rows through pointers, and the index \<open>rows\<close> maps a name to the same
  pointer. A pointer to a row is its position in \<open>grid.Rows\<close>: rows are only ever appended
  while columns are folded in, so a position stays valid. The index and the set \<open>missing\<close>
  copied from it are association lists from names to positions.
\<close>

type_synonym rowIndex = "(string \<times> nat) list"

definition modifyRow ::
  "state_Grid \<Rightarrow> nat \<Rightarrow> (state_Row \<Rightarrow> panic + state_Row) \<Rightarrow> panic + state_Grid" where
  "modifyRow grid addr f =
    (if addr < length (Rows grid) then
       case f (Rows grid ! addr) of
         Inl e \<Rightarrow> Inl e
       | Inr row \<Rightarrow> Inr (grid\<lparr>Rows := (Rows grid)[addr := row]\<rparr>)
     else Inr grid)"

definition newRow :: "string \<Rightarrow> state_Row" where
  "newRow name = \<lparr>Name = name, Id_row = name, Results = [], CellIds = [], Messages = [],
                  Icons = [], Metric = [], Metrics = [], AlertInfo = None\<rparr>"

text \<open>One turn of the loop over \<open>inflated.cells\<close>.\<close>

definition appendColumnCell ::
  "state_Grid \<times> rowIndex \<times> rowIndex \<Rightarrow> string \<times> cell \<Rightarrow> panic + (state_Grid \<times> rowIndex \<times> rowIndex)" where
  "appendColumnCell st nc =
    (case st of (grid, rows, missing) \<Rightarrow> (case nc of (name, c) \<Rightarrow>
       let missing1 = filter (\<lambda>(k, a). k \<noteq> name) missing in
       (case map_of rows name of
         Some addr \<Rightarrow>
           (case modifyRow grid addr (\<lambda>row. appendCell row c 1) of
              Inl e \<Rightarrow> Inl e
            | Inr grid1 \<Rightarrow> Inr (grid1, rows, missing1))
       | None \<Rightarrow>
           let addr = length (Rows grid);
               rows1 = rows @ [(name, addr)];
               grid1 = grid\<lparr>Rows := Rows grid @ [newRow name]\<rparr>;
               n = int (length (Columns grid1))
           in (case (if n > 1 then modifyRow grid1 addr (\<lambda>row. appendCell row emptyCell (n - 1))
                     else Inr grid1) of
                 Inl e \<Rightarrow> Inl e
               | Inr grid2 \<Rightarrow>
                   (case modifyRow grid2 addr (\<lambda>row. appendCell row c 1) of
                      Inl e \<Rightarrow> Inl e
                    | Inr grid3 \<Rightarrow> Inr (grid3, rows1, missing1))))))"

definition appendMissing :: "state_Grid \<Rightarrow> string \<times> nat \<Rightarrow> panic + state_Grid" where
  "appendMissing grid na = modifyRow grid (snd na) (\<lambda>row. appendCell row emptyCell 1)"

definition appendColumn ::
  "state_Grid \<Rightarrow> rowIndex \<Rightarrow> inflatedColumn \<Rightarrow> panic + (state_Grid \<times> rowIndex)" where
  "appendColumn grid rows inflated =
    (let grid1 = grid\<lparr>Columns := Columns grid @ [column inflated]\<rparr> in
     case foldE appendColumnCell (grid1, rows, rows) (cells inflated) of
       Inl e \<Rightarrow> Inl e
     | Inr (grid2, rows2, missing) \<Rightarrow>
         (case foldE appendMissing grid2 missing of
            Inl e \<Rightarrow> Inl e
          | Inr grid3 \<Rightarrow> Inr (grid3, rows2)))"

section \<open>The alert of a row\<close>

text \<open>
  Modelled from the spec: \<open>result.Iter\<close> and \<open>result.Coalesce\<close> are functions of
  internal/result, which is not among the sources. By the spec the results of a row are
  run-length-encoded pairs \<open>[code, length, code, length, \<dots>]\<close>, \<open>Iter\<close> sends the decoded
  results over a channel, and with \<open>IgnoreRunning\<close> \<open>Coalesce\<close> maps RUNNING to NO_RESULT and
  is otherwise the identity. The channel is the list of the results still to be received;
  a receive from the channel once every result has been sent gives the zero value, NO_RESULT.
\<close>

fun Iter :: "int list \<Rightarrow> int list" where
  "Iter (code # n # results) = replicate (nat n) code @ Iter results"
| "Iter results = []"

definition IgnoreRunning :: bool where
  "IgnoreRunning = True"

definition Coalesce :: "int \<Rightarrow> bool \<Rightarrow> int" where
  "Coalesce r ignoreRunning = (if r = Row_RUNNING \<and> ignoreRunning then Row_NO_RESULT else r)"

definition recv :: "int list \<Rightarrow> int" where
  "recv ch = (case ch of [] \<Rightarrow> Row_NO_RESULT | r # rest \<Rightarrow> r)"

definition buildID :: "state_Column option \<Rightarrow> string" where
  "buildID col =
    (case col of
       None \<Rightarrow> []
     | Some c \<Rightarrow> (if length (Extra c) > 0 then Extra c ! 0 else Build c))"

definition billion :: real where
  "billion = 10 ^ 9"

definition stamp :: "state_Column option \<Rightarrow> timestamp_Timestamp option" where
  "stamp col =
    (case col of
       None \<Rightarrow> None
     | Some c \<Rightarrow>
         (let seconds = Started c; floor_s = \<lfloor>seconds\<rfloor>; remain = seconds - of_int floor_s
          in Some \<lparr>Seconds = floor_s, Nanos = int32 \<lfloor>remain * billion\<rfloor>\<rparr>))"

definition alertInfo ::
  "int \<Rightarrow> string \<Rightarrow> string \<Rightarrow> state_Column option \<Rightarrow> state_Column option \<Rightarrow> state_AlertInfo" where
  "alertInfo nfailures msg cellId fail pass =
    \<lparr>FailCount = nfailures, FailBuildId = buildID fail, FailTime = stamp fail,
     FailTestId = cellId, FailureMessage = msg, PassTime = stamp pass,
     PassBuildId = buildID pass\<rparr>"

text \<open>The local variables of \<open>alertRow\<close> that its loop reads and writes.\<close>

record alertVars =
  failures :: int
  totalFailures :: int
  passes :: int
  compressedIdx :: nat
  lastFail :: "state_Column option"
  latestPass :: "state_Column option"
  failIdx :: nat

datatype alertFlow = Continue alertVars | Break alertVars | ReturnNil

definition alertVars0 :: alertVars where
  "alertVars0 = \<lparr>failures = 0, totalFailures = 0, passes = 0, compressedIdx = 0,
                 lastFail = None, latestPass = None, failIdx = 0\<rparr>"

text \<open>
  The body of the loop for one column and the result received for it. The source tests
  \<open>res\<close> against PASS, FAIL and FLAKY in three successive \<open>if\<close> statements; \<open>res\<close> does not
  change between them and the codes differ, so at most one of them runs.
\<close>

definition alertStep :: "int \<Rightarrow> int \<Rightarrow> state_Column \<Rightarrow> int \<Rightarrow> alertVars \<Rightarrow> alertFlow" where
  "alertStep failuresToOpen passesToClose col rawRes s =
    (let res = Coalesce rawRes IgnoreRunning in
     if res = Row_NO_RESULT then
       (if rawRes = Row_RUNNING then Continue (s\<lparr>compressedIdx := compressedIdx s + 1\<rparr>)
        else Continue s)
     else if res = Row_PASS then
       (let s1 = s\<lparr>passes := passes s + 1\<rparr> in
        if failures s1 \<ge> failuresToOpen then Break (s1\<lparr>latestPass := Some col\<rparr>)
        else if passes s1 \<ge> passesToClose then ReturnNil
        else Continue (s1\<lparr>failures := 0, compressedIdx := compressedIdx s1 + 1\<rparr>))
     else if res = Row_FAIL then
       (let s1 = s\<lparr>passes := 0, failures := failures s + 1,
                   totalFailures := int32 (totalFailures s + 1)\<rparr>;
            s2 = (if failures s1 = 1 then s1\<lparr>failIdx := compressedIdx s1\<rparr> else s1)
        in Continue (s2\<lparr>lastFail := Some col, compressedIdx := compressedIdx s2 + 1\<rparr>))
     else if res = Row_FLAKY then
       (let s1 = s\<lparr>passes := 0\<rparr> in
        if failures s1 \<ge> failuresToOpen then Break s1
        else Continue (s1\<lparr>failures := 0, compressedIdx := compressedIdx s1 + 1\<rparr>))
     else Continue (s\<lparr>compressedIdx := compressedIdx s + 1\<rparr>))"

text \<open>
  The loop over the columns: \<open>None\<close> when the body returned nil, otherwise the variables
  at the end of the loop or at its \<open>break\<close>.
\<close>

fun alertLoop :: "int \<Rightarrow> int \<Rightarrow> state_Column list \<Rightarrow> int list \<Rightarrow> alertVars \<Rightarrow> alertVars option" where
  "alertLoop failuresToOpen passesToClose [] ch s = Some s"
| "alertLoop failuresToOpen passesToClose (col # cols) ch s =
     (case alertStep failuresToOpen passesToClose col (recv ch) s of
        Continue s1 \<Rightarrow> alertLoop failuresToOpen passesToClose cols (tl ch) s1
      | Break s1 \<Rightarrow> Some s1
      | ReturnNil \<Rightarrow> None)"

definition alertRow ::
  "state_Column list \<Rightarrow> state_Row \<Rightarrow> int \<Rightarrow> int \<Rightarrow> panic + state_AlertInfo option" where
  "alertRow cols row failuresToOpen passesToClose =
    (if failuresToOpen = 0 then Inr None
     else (case alertLoop failuresToOpen passesToClose cols (Iter (Results row)) alertVars0 of
             None \<Rightarrow> Inr None
           | Some s \<Rightarrow>
               if failures s < failuresToOpen then Inr None
               else (case sliceAt (Messages row) (int (failIdx s)) of
                       Inl e \<Rightarrow> Inl e
                     | Inr msg \<Rightarrow>
                         (case sliceAt (CellIds row) (int (failIdx s)) of
                            Inl e \<Rightarrow> Inl e
                          | Inr cid \<Rightarrow>
                              Inr (Some (alertInfo (totalFailures s) msg cid
                                           (lastFail s) (latestPass s)))))))"

fun alertRows ::
  "state_Column list \<Rightarrow> state_Row list \<Rightarrow> int \<Rightarrow> int \<Rightarrow> panic + state_Row list" where
  "alertRows cols [] openFailures closePasses = Inr []"
| "alertRows cols (r # rs) openFailures closePasses =
     (case alertRow cols r openFailures closePasses of
        Inl e \<Rightarrow> Inl e
      | Inr a \<Rightarrow>
          (case alertRows cols rs openFailures closePasses of
             Inl e \<Rightarrow> Inl e
           | Inr rs1 \<Rightarrow> Inr (r\<lparr>AlertInfo := a\<rparr> # rs1)))"

section \<open>constructGrid\<close>

text \<open>
  \<open>sort.SliceStable\<close> is Go's library: it sorts a slice by a \<open>less\<close> function and keeps
  elements that compare equal in their order. It is modelled by stable insertion.
  \<open>sortorder.NaturalLess\<close> belongs to a library outside the repository and is a parameter
  of \<open>constructGrid\<close>.
\<close>

fun insertStable :: "('a \<Rightarrow> 'a \<Rightarrow> bool) \<Rightarrow> 'a \<Rightarrow> 'a list \<Rightarrow> 'a list" where
  "insertStable lt x [] = [x]"
| "insertStable lt x (y # ys) =
     (if lt y x then y # insertStable lt x ys else x # y # ys)"

fun SliceStable :: "('a \<Rightarrow> 'a \<Rightarrow> bool) \<Rightarrow> 'a list \<Rightarrow> 'a list" where
  "SliceStable lt [] = []"
| "SliceStable lt (x # xs) = insertStable lt x (SliceStable lt xs)"

definition emptyGrid :: state_Grid where
  "emptyGrid = \<lparr>Columns = [], Rows = []\<rparr>"

text \<open>One turn of the loop over the columns: the column is appended, then every row is alerted.\<close>

definition constructStep ::
  "int \<Rightarrow> int \<Rightarrow> state_Grid \<times> rowIndex \<Rightarrow> inflatedColumn \<Rightarrow> panic + (state_Grid \<times> rowIndex)" where
  "constructStep failsOpen passesClose st col =
    (case st of (grid, rows) \<Rightarrow>
       (case appendColumn grid rows col of
          Inl e \<Rightarrow> Inl e
        | Inr (grid1, rows1) \<Rightarrow>
            (case alertRows (Columns grid1) (Rows grid1) failsOpen passesClose of
               Inl e \<Rightarrow> Inl e
             | Inr rs \<Rightarrow> Inr (grid1\<lparr>Rows := rs\<rparr>, rows1))))"

definition sortMetrics :: "(string \<Rightarrow> string \<Rightarrow> bool) \<Rightarrow> state_Row \<Rightarrow> state_Row" where
  "sortMetrics NaturalLess row =
    row\<lparr>Metric := SliceStable NaturalLess (Metric row),
        Metrics := SliceStable (\<lambda>a b. NaturalLess (mName a) (mName b)) (Metrics row)\<rparr>"

definition sortGrid :: "(string \<Rightarrow> string \<Rightarrow> bool) \<Rightarrow> state_Grid \<Rightarrow> state_Grid" where
  "sortGrid NaturalLess grid =
    grid\<lparr>Rows := map (sortMetrics NaturalLess)
                   (SliceStable (\<lambda>a b. NaturalLess (Name a) (Name b)) (Rows grid))\<rparr>"

definition constructGrid ::
  "(string \<Rightarrow> string \<Rightarrow> bool) \<Rightarrow> configpb_TestGroup \<Rightarrow> inflatedColumn list \<Rightarrow> panic + state_Grid" where
  "constructGrid NaturalLess grp cols =
    (let failsOpen = NumFailuresToAlert grp;
         passesClose = NumPassesToDisableAlert grp;
         passesClose1 = (if failsOpen > 0 \<and> passesClose = 0 then 1 else passesClose)
     in case foldE (constructStep failsOpen passesClose1) (emptyGrid, []) cols of
          Inl e \<Rightarrow> Inl e
        | Inr (grid, rows) \<Rightarrow> Inr (sortGrid NaturalLess grid))"

section \<open>Measures of the encodings\<close>

text \<open>
  The sum of the run lengths of a stream of pairs \<open>[start, length, start, length, \<dots>]\<close>,
  and the streams of pairs whose run lengths are all positive.
\<close>

fun runSum :: "int list \<Rightarrow> int" where
  "runSum (start # n # rest) = n + runSum rest"
| "runSum rest = 0"

fun runsPositive :: "int list \<Rightarrow> bool" where
  "runsPositive [] = True"
| "runsPositive [x] = False"
| "runsPositive (start # n # rest) = (0 < n \<and> runsPositive rest)"

section \<open>What a grid holds\<close>

text \<open>
  The cell a column holds for a row name, the empty cell when it holds none; the cells that
  count for the side arrays of messages and icons; and what a row is expected to hold once
  the cells \<open>cs\<close> have been appended to it, oldest call first. The run-length code of an
  \<open>int32\<close> is only exact below \<open>2^31\<close> cells.
\<close>

definition cellAt :: "inflatedColumn \<Rightarrow> string \<Rightarrow> cell" where
  "cellAt col name = (case map_of (cells col) name of None \<Rightarrow> emptyCell | Some c \<Rightarrow> c)"

definition hasResult :: "cell \<Rightarrow> bool" where
  "hasResult c = (result c \<noteq> Row_NO_RESULT)"

definition rowOf :: "cell list \<Rightarrow> state_Row \<Rightarrow> bool" where
  "rowOf cs row =
    ((int (length cs) < 2 ^ 31 \<longrightarrow>
        runsPositive (Results row) \<and> Iter (Results row) = map result cs) \<and>
     CellIds row = map cellID cs \<and>
     Messages row = map message (filter hasResult cs) \<and>
     Icons row = map icon (filter hasResult cs))"

text \<open>
  The invariant of the fold: the index maps the name of each row to its position, names are
  distinct, every name met so far has its row, and every row holds the cells of the columns
  folded in so far; \<open>rowsDone\<close> and \<open>loopInv\<close> are its forms inside the two loops of
  \<open>appendColumn\<close>, where the rows named in \<open>D\<close> already hold the cell of the new column.
\<close>

definition expected :: "inflatedColumn list \<Rightarrow> string \<Rightarrow> cell list" where
  "expected cs name = map (\<lambda>col. cellAt col name) cs"

definition indexOk :: "state_Grid \<Rightarrow> rowIndex \<Rightarrow> bool" where
  "indexOk grid rows =
    (rows = zip (map Name (Rows grid)) [0..<length (Rows grid)] \<and> distinct (map Name (Rows grid)))"

definition rowsDone ::
  "inflatedColumn list \<Rightarrow> inflatedColumn \<Rightarrow> string set \<Rightarrow> state_Grid \<Rightarrow> bool" where
  "rowsDone cs col D grid =
    (\<forall>r \<in> set (Rows grid). rowOf (expected (if Name r \<in> D then cs @ [col] else cs) (Name r)) r)"

definition gridInv :: "inflatedColumn list \<Rightarrow> state_Grid \<Rightarrow> rowIndex \<Rightarrow> bool" where
  "gridInv cs grid rows =
    (Columns grid = map column cs \<and> indexOk grid rows \<and>
     (\<forall>c \<in> set cs. fst ` set (cells c) \<subseteq> Name ` set (Rows grid)) \<and>
     (\<forall>r \<in> set (Rows grid). rowOf (expected cs (Name r)) r))"

definition loopInv ::
  "inflatedColumn list \<Rightarrow> inflatedColumn \<Rightarrow> string set \<Rightarrow>
     state_Grid \<times> rowIndex \<times> rowIndex \<Rightarrow> bool" where
  "loopInv cs col D st =
    (case st of (grid, rows, missing) \<Rightarrow>
       Columns grid = map column (cs @ [col]) \<and> indexOk grid rows \<and>
       missing = filter (\<lambda>(k, a). k \<notin> D) rows \<and>
       (\<forall>c \<in> set cs. fst ` set (cells c) \<subseteq> Name ` set (Rows grid)) \<and>
       D \<subseteq> Name ` set (Rows grid) \<and> rowsDone cs col D grid)"

section \<open>Orders and sorted lists\<close>

text \<open>
  A comparator such as \<open>NaturalLess\<close> is a strict weak order: it is asymmetric, and "not
  greater" is transitive. A list is sorted by it when no element is less than an earlier
  one; two elements are tied when neither is less than the other.
\<close>

definition strictWeakOrder :: "('a \<Rightarrow> 'a \<Rightarrow> bool) \<Rightarrow> bool" where
  "strictWeakOrder lt =
    ((\<forall>a b. lt a b \<longrightarrow> \<not> lt b a) \<and> (\<forall>a b c. \<not> lt b a \<and> \<not> lt c b \<longrightarrow> \<not> lt c a))"

definition sortedBy :: "('a \<Rightarrow> 'a \<Rightarrow> bool) \<Rightarrow> 'a list \<Rightarrow> bool" where
  "sortedBy lt xs = sorted_wrt (\<lambda>a b. \<not> lt b a) xs"

definition tied :: "('a \<Rightarrow> 'a \<Rightarrow> bool) \<Rightarrow> 'a \<Rightarrow> 'a \<Rightarrow> bool" where
  "tied lt a b = (\<not> lt a b \<and> \<not> lt b a)"

text \<open>
  The rows are created in the order in which \<open>appendColumn\<close> first meets their names:
  column by column, and within a column in the order its cells are ranged over.
\<close>

definition addName :: "string list \<Rightarrow> string \<Rightarrow> string list" where
  "addName names name = (if name \<in> set names then names else names @ [name])"

definition firstSeen :: "string list \<Rightarrow> string list" where
  "firstSeen names = foldl addName [] names"

definition cellNames :: "inflatedColumn list \<Rightarrow> string list" where
  "cellNames cols = concat (map (\<lambda>col. map fst (cells col)) cols)"

text \<open>Invariants: the names of the metric series of a row, and the names of the rows.\<close>

definition metricsNamed :: "state_Row \<Rightarrow> bool" where
  "metricsNamed row = (map mName (Metrics row) = Metric row)"

definition namesInv :: "string list \<Rightarrow> state_Grid \<times> rowIndex \<times> rowIndex \<Rightarrow> bool" where
  "namesInv names st = (indexOk (fst st) (fst (snd st)) \<and> map Name (Rows (fst st)) = names)"

section \<open>Alerts once, and verdicts\<close>

text \<open>
  Nothing but \<open>alertRows\<close> writes the alert of a row; \<open>stripAlerts\<close> forgets the
  alerts of a grid, and a grid is \<open>alerted\<close> when \<open>alertRows\<close> leaves it as it is.
\<close>

definition clearAlert :: "state_Row \<Rightarrow> state_Row" where
  "clearAlert row = row\<lparr>AlertInfo := None\<rparr>"

definition stripAlerts :: "state_Grid \<Rightarrow> state_Grid" where
  "stripAlerts grid = grid\<lparr>Rows := map clearAlert (Rows grid)\<rparr>"

definition strip3 :: "state_Grid \<times> rowIndex \<times> rowIndex \<Rightarrow> state_Grid \<times> rowIndex \<times> rowIndex" where
  "strip3 st = (case st of (grid, rows, missing) \<Rightarrow> (stripAlerts grid, rows, missing))"

definition strip2 :: "state_Grid \<times> rowIndex \<Rightarrow> state_Grid \<times> rowIndex" where
  "strip2 st = (case st of (grid, rows) \<Rightarrow> (stripAlerts grid, rows))"

definition alerted :: "int \<Rightarrow> int \<Rightarrow> state_Grid \<Rightarrow> bool" where
  "alerted f p grid = (alertRows (Columns grid) (Rows grid) f p = Inr (Rows grid))"

text \<open>
  The variants of \<open>constructGrid\<close> the specification proposes: the fold only appends the
  columns, and \<open>alertRows\<close> runs once, after the fold (\<open>constructGrid_alertOnce\<close>) or
  after the sorts (\<open>constructGrid_alertLast\<close>).
\<close>

definition appendOnly ::
  "state_Grid \<times> rowIndex \<Rightarrow> inflatedColumn \<Rightarrow> panic + (state_Grid \<times> rowIndex)" where
  "appendOnly st col = (case st of (grid, rows) \<Rightarrow> appendColumn grid rows col)"

definition constructGrid_alertOnce ::
  "(string \<Rightarrow> string \<Rightarrow> bool) \<Rightarrow> configpb_TestGroup \<Rightarrow> inflatedColumn list \<Rightarrow> panic + state_Grid" where
  "constructGrid_alertOnce NaturalLess grp cols =
    (let failsOpen = NumFailuresToAlert grp;
         passesClose = NumPassesToDisableAlert grp;
         passesClose1 = (if failsOpen > 0 \<and> passesClose = 0 then 1 else passesClose)
     in case foldE appendOnly (emptyGrid, []) cols of
          Inl e \<Rightarrow> Inl e
        | Inr (grid, rows) \<Rightarrow>
            (case alertRows (Columns grid) (Rows grid) failsOpen passesClose1 of
               Inl e \<Rightarrow> Inl e
             | Inr rs \<Rightarrow> Inr (sortGrid NaturalLess (grid\<lparr>Rows := rs\<rparr>))))"

definition constructGrid_alertLast ::
  "(string \<Rightarrow> string \<Rightarrow> bool) \<Rightarrow> configpb_TestGroup \<Rightarrow> inflatedColumn list \<Rightarrow> panic + state_Grid" where
  "constructGrid_alertLast NaturalLess grp cols =
    (let failsOpen = NumFailuresToAlert grp;
         passesClose = NumPassesToDisableAlert grp;
         passesClose1 = (if failsOpen > 0 \<and> passesClose = 0 then 1 else passesClose)
     in case foldE appendOnly (emptyGrid, []) cols of
          Inl e \<Rightarrow> Inl e
        | Inr (grid, rows) \<Rightarrow>
            (let sorted = sortGrid NaturalLess grid in
             case alertRows (Columns sorted) (Rows sorted) failsOpen passesClose1 of
               Inl e \<Rightarrow> Inl e
             | Inr rs \<Rightarrow> Inr (sorted\<lparr>Rows := rs\<rparr>)))"



section \<open>Examples\<close>

definition exColumn :: "string \<Rightarrow> state_Column" where
  "exColumn b = \<lparr>Build = b, Started = 0, Extra = []\<rparr>"

definition exRow :: "int list \<Rightarrow> state_Row" where
  "exRow rs = (newRow ''t'')\<lparr>Results := rs, CellIds := [''c0'', ''c1'', ''c2'', ''c3''],
                             Messages := [''m0'', ''m1'', ''m2'', ''m3'']\<rparr>"

definition exCell :: "int \<Rightarrow> string \<Rightarrow> cell" where
  "exCell r b = \<lparr>result = r, cellID = b, icon = ''i'', message = ''m'', metrics = []\<rparr>"

text \<open>
  The second seed scenario of the specification: the newer build \<open>b2\<close> has the tests
  \<open>t1\<close> (passing) and \<open>t2\<close> (failing), the older build \<open>b1\<close> only \<open>t1\<close>.
\<close>

definition exCols :: "inflatedColumn list" where
  "exCols =
    [\<lparr>column = exColumn ''b2'',
      cells = [(''t1'', exCell Row_PASS ''b2''), (''t2'', exCell Row_FAIL ''b2'')]\<rparr>,
     \<lparr>column = exColumn ''b1'', cells = [(''t1'', exCell Row_PASS ''b1'')]\<rparr>]"

definition exGroup :: configpb_TestGroup where
  "exGroup = \<lparr>NumFailuresToAlert = 1, NumPassesToDisableAlert = 0\<rparr>"

definition exLess :: "string \<Rightarrow> string \<Rightarrow> bool" where
  "exLess a b = (length a < length b)"


definition exGrid :: state_Grid where
  "exGrid =
    \<lparr>Columns = [exColumn ''b2'', exColumn ''b1''],
     Rows =
       [(newRow ''t1'')\<lparr>Results := [Row_PASS, 2], CellIds := [''b2'', ''b1''],
                        Messages := [''m'', ''m''], Icons := [''i'', ''i'']\<rparr>,
        (newRow ''t2'')\<lparr>Results := [Row_FAIL, 1, Row_NO_RESULT, 1], CellIds := [''b2'', []],
                        Messages := [''m''], Icons := [''i''],
                        AlertInfo := Some \<lparr>FailCount = 1, FailBuildId = ''b2'',
                          FailTime = Some \<lparr>Seconds = 0, Nanos = 0\<rparr>, FailTestId = ''b2'',
                          FailureMessage = ''m'', PassTime = None, PassBuildId = []\<rparr>\<rparr>]\<rparr>"

text \<open>A row that first appears in the third column: \<open>t2\<close> is only in the oldest build.\<close>

definition exColsLate :: "inflatedColumn list" where
  "exColsLate =
    [\<lparr>column = exColumn ''b3'', cells = [(''t1'', exCell Row_PASS ''b3'')]\<rparr>,
     \<lparr>column = exColumn ''b2'', cells = [(''t1'', exCell Row_PASS ''b2'')]\<rparr>,
     \<lparr>column = exColumn ''b1'',
      cells = [(''t2'', exCell Row_FAIL ''b1''), (''t1'', exCell Row_PASS ''b1'')]\<rparr>]"

text \<open>One build with three tests, ranged over in the order \<open>t10\<close>, \<open>t3\<close>, \<open>t2\<close>.\<close>

definition exColsSort :: "inflatedColumn list" where
  "exColsSort =
    [\<lparr>column = exColumn ''b1'',
      cells = [(''t10'', (exCell Row_PASS ''b1'')\<lparr>metrics := [(''latency'', 5), (''cpu'', 1)]\<rparr>),
               (''t3'', exCell Row_PASS ''b1''), (''t2'', exCell Row_FAIL ''b1'')]\<rparr>]"

section \<open>Basic facts\<close>

lemma int32_id: "- (2 ^ 31) \<le> x \<Longrightarrow> x < 2 ^ 31 \<Longrightarrow> int32 x = x"
  unfolding int32_def by (simp add: zmod_trivial_iff)

lemma list4: "length xs = 4 \<Longrightarrow> \<exists>a b c d. xs = [a, b, c, d]"
  by (auto simp: numeral_eq_Suc length_Suc_conv)

lemma even_list_snoc2:
  "even (length xs) \<Longrightarrow> xs \<noteq> [] \<Longrightarrow> \<exists>ys a b. xs = ys @ [a, b] \<and> even (length ys)"
proof -
  assume e: "even (length xs)" and ne: "xs \<noteq> []"
  then obtain ys b where 1: "xs = ys @ [b]" by (metis rev_exhaust)
  with e have "ys \<noteq> []" by auto
  then obtain zs a where 2: "ys = zs @ [a]" by (metis rev_exhaust)
  with 1 e show ?thesis by auto
qed

lemma runsPositive_even: "runsPositive xs \<Longrightarrow> even (length xs)"
  by (induction xs rule: runsPositive.induct) auto

lemma runSum_snoc2: "even (length xs) \<Longrightarrow> runSum (xs @ [a, b]) = runSum xs + b"
  by (induction xs rule: runSum.induct) auto

lemma runsPositive_snoc2:
  "even (length xs) \<Longrightarrow> runsPositive (xs @ [a, b]) = (runsPositive xs \<and> 0 < b)"
  by (induction xs rule: runsPositive.induct) auto

lemma runSum_ge: "runsPositive xs \<Longrightarrow> 0 \<le> runSum xs"
  by (induction xs rule: runsPositive.induct) auto

section \<open>The sparse encoding of a metric\<close>

text \<open>
  Claim C6. \<open>appendMetric\<close> on a metric whose indices are a stream of pairs (of fewer than
  \<open>2^31\<close> entries): it returns, the value is appended to the values, and the pair
  \<open>(idx, 1)\<close> is appended to the indices exactly when they are empty or \<open>idx\<close> differs
  from the sum of the last pair (taken in \<open>int32\<close>, as the source takes it); otherwise the
  last run length is incremented. Whatever \<open>idx\<close> is, so also when it increases from call
  to call, the sum of the run lengths stays the number of values, as long as that number
  is below \<open>2^31 - 1\<close> (beyond it the \<open>int32\<close> run length wraps around).
\<close>

theorem appendMetric_sparse:
  assumes ev: "even (length (Indices m))" and len: "length (Indices m) < 2 ^ 31"
  shows "\<exists>m'. appendMetric m idx v = Inr m' \<and> Values m' = Values m @ [v] \<and> mName m' = mName m \<and>
           (let L = length (Indices m) in
            if L = 0 \<or> int32 (Indices m ! (L - 2) + Indices m ! (L - 1)) \<noteq> idx
            then Indices m' = Indices m @ [idx, 1]
            else Indices m' = (Indices m)[L - 1 := int32 (Indices m ! (L - 1) + 1)]) \<and>
           (runsPositive (Indices m) \<and> runSum (Indices m) = int (length (Values m)) \<and>
            length (Values m) < 2 ^ 31 - 1 \<longrightarrow>
              runsPositive (Indices m') \<and> runSum (Indices m') = int (length (Values m')))"
proof (cases "Indices m = []")
  case True
  then show ?thesis by (simp add: appendMetric_def int32_def)
next
  case False
  from even_list_snoc2[OF ev False] obtain ys a b where
    ix: "Indices m = ys @ [a, b]" and ey: "even (length ys)" by blast
  have l: "int32 (int (length (Indices m))) = int (length (Indices m))"
    using len by (intro int32_id) auto
  have l0: "int (length (Indices m)) \<noteq> 0" using False by simp
  have i2: "int (length (Indices m)) - 2 = int (length ys)"
    and i1: "int (length (Indices m)) - 1 = int (Suc (length ys))"
    using ix by simp_all
  have g1: "sliceAt (Indices m) (int (length (Indices m)) - 2) = Inr a"
    unfolding i2 using ix by (simp add: sliceAt_def nth_append)
  have g2: "sliceAt (Indices m) (int (length (Indices m)) - 1) = Inr b"
    unfolding i1 using ix by (simp add: sliceAt_def nth_append del: of_nat_Suc)
  have n1: "Indices m ! (length (Indices m) - 2) = a" using ix by (simp add: nth_append)
  have n2: "Indices m ! (length (Indices m) - 1) = b" using ix by (simp add: nth_append)
  have n3: "nat (int (length (Indices m)) - 1) = length (Indices m) - 1" by simp
  have upd: "(Indices m)[length (Indices m) - 1 := x] = ys @ [a, x]" for x
    using ix by (simp add: list_update_append)
  show ?thesis
  proof (cases "int32 (a + b) \<noteq> idx")
    case True
    then show ?thesis
      using l l0 g1 g2 n1 n2 ey ix
      by (auto simp: appendMetric_def Let_def runSum_snoc2 runsPositive_snoc2 simp del: append_assoc
               simp add: append_assoc[symmetric])
  next
    case eq: False
    have inv: "runsPositive (ys @ [a, int32 (b + 1)]) \<and>
               runSum (ys @ [a, int32 (b + 1)]) = int (length (Values m)) + 1"
      if "runsPositive (Indices m)" "runSum (Indices m) = int (length (Values m))"
        "length (Values m) < 2 ^ 31 - 1"
    proof -
      from that(1) ix ey have rp: "runsPositive ys" "0 < b" by (simp_all add: runsPositive_snoc2)
      from that(2) ix ey have "runSum ys + b = int (length (Values m))" by (simp add: runSum_snoc2)
      with runSum_ge[OF rp(1)] that(3) have "b < 2 ^ 31 - 1" by simp
      with rp(2) have "int32 (b + 1) = b + 1" by (intro int32_id) auto
      with rp ey that(2) ix show ?thesis by (simp add: runSum_snoc2 runsPositive_snoc2)
    qed
    show ?thesis
      using eq l l0 g1 g2 n1 n2 n3 upd inv
      by (auto simp: appendMetric_def Let_def)
  qed
qed

theorem appendMetric_sparse_witness:
  "even (length [0, 2 :: int]) \<and> length [0, 2 :: int] < 2 ^ 31 \<and>
   runsPositive [0, 2] \<and> runSum [0, 2] = int (length [5, 6 :: real]) \<and>
   appendMetric \<lparr>mName = ''latency'', Indices = [0, 2], Values = [5, 6]\<rparr> 2 7 =
     Inr \<lparr>mName = ''latency'', Indices = [0, 3], Values = [5, 6, 7]\<rparr> \<and>
   appendMetric \<lparr>mName = ''latency'', Indices = [0, 2], Values = [5, 6]\<rparr> 4 7 =
     Inr \<lparr>mName = ''latency'', Indices = [0, 2, 4, 1], Values = [5, 6, 7]\<rparr> \<and>
   runSum [0, 3] = 3 \<and> runSum [0, 2, 4, 1] = 3"
  using appendMetric_sparse[of "\<lparr>mName = ''latency'', Indices = [0, 2], Values = [5, 6]\<rparr>" 2 7]
    appendMetric_sparse[of "\<lparr>mName = ''latency'', Indices = [0, 2], Values = [5, 6]\<rparr>" 4 7]
  by (simp add: appendMetric_def sliceAt_def int32_def)

section \<open>The alert of a row: examples and bounds\<close>

lemma alertStep_failures:
  assumes "0 \<le> failures s"
  shows "case alertStep f p col r s of
           Continue s1 \<Rightarrow> 0 \<le> failures s1 \<and>
             failures s1 \<le> failures s + (if r = Row_FAIL then 1 else 0)
         | Break s1 \<Rightarrow> failures s1 = failures s \<and> f \<le> failures s
         | ReturnNil \<Rightarrow> True"
  using assms
  by (simp add: alertStep_def Coalesce_def IgnoreRunning_def Let_def Row_Result_defs)

lemma alertLoop_failures:
  "0 \<le> failures s \<Longrightarrow> alertLoop f p cols ch s = Some s1 \<Longrightarrow>
   failures s1 \<le> failures s + int (count_list ch Row_FAIL)"
proof (induction cols arbitrary: ch s)
  case Nil
  then show ?case by simp
next
  case (Cons col cols)
  note step = alertStep_failures[OF Cons.prems(1), where f = f and p = p and col = col
      and r = "recv ch"]
  show ?case
  proof (cases "alertStep f p col (recv ch) s")
    case (Continue s2)
    with step have b: "0 \<le> failures s2"
      "failures s2 \<le> failures s + (if recv ch = Row_FAIL then 1 else 0)"
      by simp_all
    from Cons.prems(2) Continue have "alertLoop f p cols (tl ch) s2 = Some s1" by simp
    from Cons.IH[OF b(1) this]
    have "failures s1 \<le> failures s2 + int (count_list (tl ch) Row_FAIL)" .
    moreover have "(if recv ch = Row_FAIL then 1 else 0) + int (count_list (tl ch) Row_FAIL) =
        int (count_list ch Row_FAIL)"
      by (cases ch) (simp_all add: recv_def Row_Result_defs)
    ultimately show ?thesis using b(2) by linarith
  next
    case (Break s2)
    with step Cons.prems(2) show ?thesis by simp
  next
    case ReturnNil
    with Cons.prems(2) show ?thesis by simp
  qed
qed

text \<open>
  Claim C3. With \<open>failuresToOpen = 2\<close> and \<open>passesToClose = 1\<close>, a row whose decoded
  results are, newest first, PASS, FAIL, FAIL, PASS has no alert, whatever the columns;
  a row whose decoded results are FAIL, FAIL, PASS, PASS, in a grid of four columns and
  with a message and a cell id to report, has an alert whose \<open>FailCount\<close> is 2.
\<close>

theorem alertRow_seed_scenarios:
  "(Iter (Results row) = [Row_PASS, Row_FAIL, Row_FAIL, Row_PASS] \<longrightarrow>
      alertRow cols row 2 1 = Inr None) \<and>
   (Iter (Results row') = [Row_FAIL, Row_FAIL, Row_PASS, Row_PASS] \<and> length cols' = 4 \<and>
    Messages row' \<noteq> [] \<and> CellIds row' \<noteq> [] \<longrightarrow>
      (\<exists>a. alertRow cols' row' 2 1 = Inr (Some a) \<and> FailCount a = 2))"
proof (intro conjI impI)
  assume "Iter (Results row) = [Row_PASS, Row_FAIL, Row_FAIL, Row_PASS]"
  then show "alertRow cols row 2 1 = Inr None"
    by (cases cols)
      (simp_all add: alertRow_def alertStep_def alertVars0_def recv_def Coalesce_def
        Row_Result_defs)
next
  assume a: "Iter (Results row') = [Row_FAIL, Row_FAIL, Row_PASS, Row_PASS] \<and> length cols' = 4 \<and>
    Messages row' \<noteq> [] \<and> CellIds row' \<noteq> []"
  then obtain c0 c1 c2 c3 where "cols' = [c0, c1, c2, c3]" using list4 by blast
  with a show "\<exists>a. alertRow cols' row' 2 1 = Inr (Some a) \<and> FailCount a = 2"
    by (clarsimp simp add: alertRow_def alertStep_def alertVars0_def recv_def Coalesce_def
        Row_Result_defs sliceAt_def alertInfo_def int32_def)
qed

theorem alertRow_seed_scenarios_witness:
  "Iter (Results (exRow [Row_PASS, 1, Row_FAIL, 2, Row_PASS, 1])) =
     [Row_PASS, Row_FAIL, Row_FAIL, Row_PASS] \<and>
   alertRow (map exColumn [''b4'', ''b3'', ''b2'', ''b1''])
     (exRow [Row_PASS, 1, Row_FAIL, 2, Row_PASS, 1]) 2 1 = Inr None \<and>
   Iter (Results (exRow [Row_FAIL, 2, Row_PASS, 2])) = [Row_FAIL, Row_FAIL, Row_PASS, Row_PASS] \<and>
   length (map exColumn [''b4'', ''b3'', ''b2'', ''b1'']) = 4 \<and>
   Messages (exRow [Row_FAIL, 2, Row_PASS, 2]) \<noteq> [] \<and>
   CellIds (exRow [Row_FAIL, 2, Row_PASS, 2]) \<noteq> [] \<and>
   (\<exists>a. alertRow (map exColumn [''b4'', ''b3'', ''b2'', ''b1''])
          (exRow [Row_FAIL, 2, Row_PASS, 2]) 2 1 = Inr (Some a) \<and> FailCount a = 2)"
  using alertRow_seed_scenarios[of "exRow [Row_PASS, 1, Row_FAIL, 2, Row_PASS, 1]"
      "map exColumn [''b4'', ''b3'', ''b2'', ''b1'']" "exRow [Row_FAIL, 2, Row_PASS, 2]"
      "map exColumn [''b4'', ''b3'', ''b2'', ''b1'']"]
  by (simp add: exRow_def newRow_def numeral_2_eq_2)

text \<open>
  Claim C4. When alerts are enabled (\<open>failuresToOpen > 0\<close>) and the decoded results of a
  row hold fewer than \<open>failuresToOpen\<close> FAIL results in all, \<open>alertRow\<close> returns nil, for
  every list of columns and every \<open>passesToClose\<close>.
\<close>

theorem alertRow_few_failures:
  assumes "0 < failuresToOpen"
    and "int (count_list (Iter (Results row)) Row_FAIL) < failuresToOpen"
  shows "alertRow cols row failuresToOpen passesToClose = Inr None"
proof (cases "alertLoop failuresToOpen passesToClose cols (Iter (Results row)) alertVars0")
  case None
  then show ?thesis using assms(1) by (simp add: alertRow_def)
next
  case (Some s)
  have "failures s \<le> failures alertVars0 + int (count_list (Iter (Results row)) Row_FAIL)"
    by (rule alertLoop_failures[OF _ Some]) (simp add: alertVars0_def)
  then have "failures s < failuresToOpen" using assms(2) by (simp add: alertVars0_def)
  then show ?thesis using Some assms(1) by (simp add: alertRow_def)
qed

theorem alertRow_few_failures_witness:
  "(0::int) < 3 \<and>
   int (count_list (Iter (Results (exRow [Row_FAIL, 2, Row_RUNNING, 2]))) Row_FAIL) < 3 \<and>
   alertRow (map exColumn [''b4'', ''b3'', ''b2'', ''b1''])
     (exRow [Row_FAIL, 2, Row_RUNNING, 2]) 3 1 = Inr None"
  using alertRow_few_failures[of 3 "exRow [Row_FAIL, 2, Row_RUNNING, 2]"
      "map exColumn [''b4'', ''b3'', ''b2'', ''b1'']" 1]
  by (simp add: exRow_def newRow_def numeral_2_eq_2 Row_Result_defs)

text \<open>
  Claim C10. The build id of no column is the empty string and its time stamp is nil;
  the build id of a column is its first extra when it has extras and its \<open>Build\<close> field
  only otherwise. An alert takes \<open>FailBuildId\<close> and \<open>FailTime\<close> from the column given as
  failing and \<open>PassBuildId\<close> and \<open>PassTime\<close> from the column given as passing, and
  \<open>alertRow\<close> gives it the loop's \<open>lastFail\<close> and \<open>latestPass\<close>.
\<close>

theorem buildID_of_column:
  "buildID None = [] \<and> stamp None = None \<and>
   (Extra c \<noteq> [] \<longrightarrow> buildID (Some c) = hd (Extra c)) \<and>
   (Extra c = [] \<longrightarrow> buildID (Some c) = Build c) \<and>
   FailBuildId (alertInfo n msg cid fail pass) = buildID fail \<and>
   FailTime (alertInfo n msg cid fail pass) = stamp fail \<and>
   PassBuildId (alertInfo n msg cid fail pass) = buildID pass \<and>
   PassTime (alertInfo n msg cid fail pass) = stamp pass \<and>
   (alertRow cols row failuresToOpen passesToClose = Inr (Some a) \<longrightarrow>
     (\<exists>s. alertLoop failuresToOpen passesToClose cols (Iter (Results row)) alertVars0 = Some s \<and>
          FailBuildId a = buildID (lastFail s) \<and> FailTime a = stamp (lastFail s) \<and>
          PassBuildId a = buildID (latestPass s) \<and> PassTime a = stamp (latestPass s)))"
  by (auto simp: buildID_def stamp_def alertInfo_def alertRow_def hd_conv_nth
           split: if_splits option.splits sum.splits)

theorem buildID_of_column_witness:
  "Extra ((exColumn ''b3'')\<lparr>Extra := [''x3'', ''y3'']\<rparr>) \<noteq> [] \<and>
   buildID (Some ((exColumn ''b3'')\<lparr>Extra := [''x3'', ''y3'']\<rparr>)) = ''x3'' \<and>
   Extra (exColumn ''b2'') = [] \<and> buildID (Some (exColumn ''b2'')) = ''b2'' \<and>
   alertRow [exColumn ''b4'', (exColumn ''b3'')\<lparr>Extra := [''x3'', ''y3'']\<rparr>, exColumn ''b2'',
             exColumn ''b1'']
     (exRow [Row_FAIL, 2, Row_PASS, 2]) 2 1 =
     Inr (Some \<lparr>FailCount = 2, FailBuildId = ''x3'',
                 FailTime = Some \<lparr>Seconds = 0, Nanos = 0\<rparr>, FailTestId = ''c0'',
                 FailureMessage = ''m0'', PassTime = Some \<lparr>Seconds = 0, Nanos = 0\<rparr>,
                 PassBuildId = ''b2''\<rparr>)"
  using buildID_of_column[of "(exColumn ''b3'')\<lparr>Extra := [''x3'', ''y3'']\<rparr>" 2 "''m0''" "''c0''"
      "Some ((exColumn ''b3'')\<lparr>Extra := [''x3'', ''y3'']\<rparr>)" "Some (exColumn ''b2'')"
      "[exColumn ''b4'', (exColumn ''b3'')\<lparr>Extra := [''x3'', ''y3'']\<rparr>, exColumn ''b2'',
        exColumn ''b1'']" "exRow [Row_FAIL, 2, Row_PASS, 2]" 2 1]
    buildID_of_column[of "exColumn ''b2''"]
  by (simp add: exColumn_def exRow_def newRow_def numeral_2_eq_2 alertRow_def alertStep_def
      alertVars0_def recv_def Coalesce_def Row_Result_defs sliceAt_def alertInfo_def int32_def
      buildID_def stamp_def billion_def)

section \<open>The fold of the columns keeps its invariant\<close>

lemma Iter_snoc2: "even (length xs) \<Longrightarrow> Iter (xs @ [a, n]) = Iter xs @ replicate (nat n) a"
  by (induction xs rule: Iter.induct) auto

lemma Iter_length: "runsPositive xs \<Longrightarrow> int (length (Iter xs)) = runSum xs"
  by (induction xs rule: runsPositive.induct) auto

lemma appendMetric_mName: "appendMetric m idx v = Inr m' \<Longrightarrow> mName m' = mName m"
  by (auto simp: appendMetric_def Let_def split: if_splits sum.splits)

lemma appendCellMetric_frame:
  "appendCellMetric row nm = Inr row' \<Longrightarrow>
   Results row' = Results row \<and> CellIds row' = CellIds row \<and> Messages row' = Messages row \<and>
   Icons row' = Icons row \<and> Name row' = Name row \<and> Id_row row' = Id_row row \<and>
   AlertInfo row' = AlertInfo row"
  by (auto simp: appendCellMetric_def Let_def split: prod.splits option.splits sum.splits if_splits)

lemma foldE_appendCellMetric_frame:
  "foldE appendCellMetric row ms = Inr row' \<Longrightarrow>
   Results row' = Results row \<and> CellIds row' = CellIds row \<and> Messages row' = Messages row \<and>
   Icons row' = Icons row \<and> Name row' = Name row \<and> Id_row row' = Id_row row \<and>
   AlertInfo row' = AlertInfo row"
proof (induction ms arbitrary: row)
  case Nil
  then show ?case by simp
next
  case (Cons nm ms)
  then obtain row1 where 1: "appendCellMetric row nm = Inr row1" and 2: "foldE appendCellMetric row1 ms = Inr row'"
    by (auto split: sum.splits)
  from appendCellMetric_frame[OF 1] Cons.IH[OF 2] show ?case by simp
qed

lemma appendCellLoop_frame:
  "appendCellLoop c k row = Inr row' \<Longrightarrow>
   Results row' = Results row \<and> CellIds row' = CellIds row @ replicate k (cellID c) \<and>
   Messages row' = Messages row @ (if hasResult c then replicate k (message c) else []) \<and>
   Icons row' = Icons row @ (if hasResult c then replicate k (icon c) else []) \<and>
   Name row' = Name row \<and> Id_row row' = Id_row row \<and> AlertInfo row' = AlertInfo row"
proof (induction k arbitrary: row)
  case 0
  then show ?case by simp
next
  case (Suc k)
  show ?case
  proof (cases "result c = Row_NO_RESULT")
    case True
    with Suc.prems have "appendCellLoop c k (row\<lparr>CellIds := CellIds row @ [cellID c]\<rparr>) = Inr row'"
      by (simp add: Let_def)
    from Suc.IH[OF this] True show ?thesis
      by (simp add: hasResult_def replicate_app_Cons_same)
  next
    case False
    with Suc.prems obtain row2 where
      1: "foldE appendCellMetric (row\<lparr>CellIds := CellIds row @ [cellID c]\<rparr>) (metrics c) = Inr row2"
      and 2: "appendCellLoop c k (row2\<lparr>Messages := Messages row2 @ [message c], Icons := Icons row2 @ [icon c]\<rparr>) = Inr row'"
      by (auto simp: Let_def split: sum.splits)
    from foldE_appendCellMetric_frame[OF 1] Suc.IH[OF 2] False show ?thesis
      by (simp add: hasResult_def replicate_app_Cons_same)
  qed
qed

text \<open>The switch of appendCell on the results.\<close>

lemma appendCell_results:
  assumes rp: "runsPositive rs" and cnt: "0 < count" and bound: "runSum rs + count < 2 ^ 31"
    and app: "appendCell row c count = Inr row'" and rs: "Results row = rs"
  shows "runsPositive (Results row') \<and> Iter (Results row') = Iter rs @ replicate (nat count) (result c)"
proof (cases "rs = []")
  case True
  have "int32 count = count" using cnt bound True by (intro int32_id) auto
  with True app rs cnt show ?thesis
    using appendCellLoop_frame[of c "nat count" "row\<lparr>Results := [result c, count]\<rparr>" row']
    by (auto simp: appendCell_def Let_def)
next
  case False
  from even_list_snoc2[OF runsPositive_even[OF rp] False] obtain ys a b where
    ix: "rs = ys @ [a, b]" and ey: "even (length ys)" by blast
  from rp ix ey have rpy: "runsPositive ys" and b0: "0 < b" by (simp_all add: runsPositive_snoc2)
  from bound ix ey have bb: "runSum ys + b + count < 2 ^ 31" by (simp add: runSum_snoc2)
  have c32: "int32 count = count" using cnt bb b0 runSum_ge[OF rpy] by (intro int32_id) auto
  have b32: "int32 (b + count) = b + count" using cnt bb b0 runSum_ge[OF rpy] by (intro int32_id) auto
  have i2: "int (length rs) - 2 = int (length ys)"
    and i1: "nat (int (length rs) - 1) = Suc (length ys)"
    using ix by simp_all
  have g1: "sliceAt rs (int (length rs) - 2) = Inr a"
    unfolding i2 using ix by (simp add: sliceAt_def nth_append)
  have n2: "rs ! Suc (length ys) = b" using ix by (simp add: nth_append)
  have upd: "rs[Suc (length ys) := x] = ys @ [a, x]" for x
    using ix by (simp add: list_update_append)
  have l0: "int (length rs) \<noteq> 0" using False by simp
  show ?thesis
  proof (cases "a = result c")
    case True
    with app rs l0 g1 i1 n2 upd c32 b32 have
      "appendCellLoop c (nat count) (row\<lparr>Results := ys @ [a, b + count]\<rparr>) = Inr row'"
      by (simp add: appendCell_def Let_def)
    from appendCellLoop_frame[OF this] have "Results row' = ys @ [a, b + count]" by simp
    moreover have "nat (b + count) = nat b + nat count" using b0 cnt by simp
    ultimately show ?thesis using ix ey rpy b0 cnt True
      by (simp add: Iter_snoc2 runsPositive_snoc2 replicate_add)
  next
    case False
    with app rs l0 g1 c32 have
      "appendCellLoop c (nat count) (row\<lparr>Results := rs @ [result c, count]\<rparr>) = Inr row'"
      by (simp add: appendCell_def Let_def)
    from appendCellLoop_frame[OF this] have "Results row' = rs @ [result c, count]" by simp
    then show ?thesis using rp cnt runsPositive_even[OF rp]
      by (simp add: Iter_snoc2 runsPositive_snoc2)
  qed
qed

lemma appendCell_frame:
  assumes "appendCell row c count = Inr row'"
  shows "CellIds row' = CellIds row @ replicate (nat count) (cellID c) \<and>
   Messages row' = Messages row @ (if hasResult c then replicate (nat count) (message c) else []) \<and>
   Icons row' = Icons row @ (if hasResult c then replicate (nat count) (icon c) else []) \<and>
   Name row' = Name row \<and> Id_row row' = Id_row row \<and> AlertInfo row' = AlertInfo row"
proof -
  from assms obtain row1 where 1: "appendCellLoop c (nat count) row1 = Inr row'"
    and 2: "CellIds row1 = CellIds row" "Messages row1 = Messages row" "Icons row1 = Icons row"
      "Name row1 = Name row" "Id_row row1 = Id_row row" "AlertInfo row1 = AlertInfo row"
    by (auto simp: appendCell_def Let_def split: sum.splits if_splits)
  from appendCellLoop_frame[OF 1] 2 show ?thesis by simp
qed

lemma appendCell_rowOf:
  assumes "rowOf cs row" and "0 < count" and "appendCell row c count = Inr row'"
  shows "rowOf (cs @ replicate (nat count) c) row'"
proof -
  have res: "runsPositive (Results row') \<and>
      Iter (Results row') = map result (cs @ replicate (nat count) c)"
    if b: "int (length (cs @ replicate (nat count) c)) < 2 ^ 31"
  proof -
    from b assms(2) have "int (length cs) < 2 ^ 31" by simp
    with assms(1) have rp: "runsPositive (Results row)"
      and it: "Iter (Results row) = map result cs"
      by (simp_all add: rowOf_def)
    from Iter_length[OF rp] it have "runSum (Results row) = int (length cs)" by simp
    with b assms(2) have "runSum (Results row) + count < 2 ^ 31" by simp
    from appendCell_results[OF rp assms(2) this assms(3) refl] it show ?thesis by simp
  qed
  from appendCell_frame[OF assms(3)] assms(1)
  have "CellIds row' = map cellID (cs @ replicate (nat count) c) \<and>
        Messages row' = map message (filter hasResult (cs @ replicate (nat count) c)) \<and>
        Icons row' = map icon (filter hasResult (cs @ replicate (nat count) c))"
    by (auto simp: rowOf_def)
  with res show ?thesis unfolding rowOf_def by blast
qed

lemma indexOk_Some:
  assumes "indexOk grid rows" and "map_of rows name = Some addr"
  shows "addr < length (Rows grid) \<and> Name (Rows grid ! addr) = name"
proof -
  from assms have "(name, addr) \<in> set (zip (map Name (Rows grid)) [0..<length (Rows grid)])"
    by (auto simp: indexOk_def dest: map_of_SomeD)
  then obtain i where "i < length (Rows grid)" "map Name (Rows grid) ! i = name"
    "[0..<length (Rows grid)] ! i = addr"
    by (auto simp: set_zip)
  then show ?thesis by simp
qed

lemma indexOk_None:
  assumes "indexOk grid rows" and "map_of rows name = None"
  shows "name \<notin> Name ` set (Rows grid)"
proof -
  from assms have "map_of (zip (map Name (Rows grid)) [0..<length (Rows grid)]) name = None"
    by (simp add: indexOk_def)
  then show ?thesis by (simp add: map_of_zip_is_None)
qed

lemma indexOk_mem:
  assumes "indexOk grid rows" and "(name, addr) \<in> set rows"
  shows "map_of rows name = Some addr"
proof -
  from assms have "distinct (map fst rows)" by (simp add: indexOk_def)
  with assms(2) show ?thesis by simp
qed

lemma modifyRow_appendCell:
  assumes ok: "indexOk grid rows" and look: "map_of rows k = Some addr"
    and md: "modifyRow grid addr (\<lambda>row. appendCell row c 1) = Inr grid'"
    and rd: "rowsDone cs col D grid" and kD: "k \<notin> D" and cell: "cellAt col k = c"
  shows "indexOk grid' rows \<and> rowsDone cs col (insert k D) grid' \<and> Columns grid' = Columns grid \<and>
         map Name (Rows grid') = map Name (Rows grid)"
proof -
  from indexOk_Some[OF ok look] have a: "addr < length (Rows grid)" and nm: "Name (Rows grid ! addr) = k"
    by simp_all
  from md a obtain row' where ap: "appendCell (Rows grid ! addr) c 1 = Inr row'"
    and g': "grid' = grid\<lparr>Rows := (Rows grid)[addr := row']\<rparr>"
    by (auto simp: modifyRow_def split: sum.splits)
  from appendCell_frame[OF ap] nm have nm': "Name row' = k" by simp
  have names: "map Name (Rows grid') = map Name (Rows grid)"
    using g' nm nm' a by (simp add: map_update list_update_same_conv)
  from rd a nm kD have "rowOf (expected cs k) (Rows grid ! addr)"
    by (auto simp: rowsDone_def dest!: bspec[where x = "Rows grid ! addr"])
  from appendCell_rowOf[OF this _ ap]
  have post: "rowOf (expected (cs @ [col]) k) row'"
    by (simp add: expected_def cell)
  have dist: "distinct (map Name (Rows grid))" using ok by (simp add: indexOk_def)
  have "rowOf (expected (if Name r \<in> insert k D then cs @ [col] else cs) (Name r)) r"
    if "r \<in> set (Rows grid')" for r
  proof -
    from that g' obtain j where j: "j < length (Rows grid)" "r = (Rows grid)[addr := row'] ! j"
      by (auto simp: in_set_conv_nth)
    show ?thesis
    proof (cases "j = addr")
      case True
      with j a have "r = row'" by simp
      with post nm' show ?thesis by simp
    next
      case False
      with j have r: "r = Rows grid ! j" by simp
      from dist j(1) a False have "Name (Rows grid ! j) \<noteq> Name (Rows grid ! addr)"
        by (metis length_map nth_eq_iff_index_eq nth_map)
      with r nm have "Name r \<noteq> k" by simp
      moreover from rd r j(1) have "rowOf (expected (if Name r \<in> D then cs @ [col] else cs) (Name r)) r"
        by (simp add: rowsDone_def)
      ultimately show ?thesis by simp
    qed
  qed
  then have "rowsDone cs col (insert k D) grid'" by (simp add: rowsDone_def)
  moreover have "indexOk grid' rows" using ok names g' by (simp add: indexOk_def)
  ultimately show ?thesis using names g' by simp
qed

lemma loopInvI:
  "Columns grid = map column (cs @ [col]) \<Longrightarrow> indexOk grid rows \<Longrightarrow>
   missing = filter (\<lambda>(k, a). k \<notin> D) rows \<Longrightarrow>
   \<forall>c \<in> set cs. fst ` set (cells c) \<subseteq> Name ` set (Rows grid) \<Longrightarrow>
   D \<subseteq> Name ` set (Rows grid) \<Longrightarrow> rowsDone cs col D grid \<Longrightarrow>
   loopInv cs col D (grid, rows, missing)"
  by (simp add: loopInv_def)

lemma modifyRow_last:
  "modifyRow (grid\<lparr>Rows := xs @ [r]\<rparr>) (length xs) f =
     (case f r of Inl e \<Rightarrow> Inl e | Inr r' \<Rightarrow> Inr (grid\<lparr>Rows := xs @ [r']\<rparr>))"
  by (simp add: modifyRow_def split: sum.splits)

lemma rowOf_newRow: "rowOf [] (newRow name)"
  by (simp add: rowOf_def newRow_def)

lemma expected_absent:
  assumes "\<forall>c \<in> set cs. name \<notin> fst ` set (cells c)"
  shows "expected cs name = replicate (length cs) emptyCell"
proof -
  have "cellAt c name = emptyCell" if "c \<in> set cs" for c
  proof -
    from that assms have "map_of (cells c) name = None" by (simp add: map_of_eq_None_iff)
    then show ?thesis by (simp add: cellAt_def)
  qed
  then show ?thesis by (simp add: expected_def map_replicate_const[symmetric] cong: map_cong)
qed

lemma filter_insert_key:
  "filter (\<lambda>(k, a). k \<noteq> name) (filter (\<lambda>(k, a). k \<notin> D) rows) =
   filter (\<lambda>(k, a). k \<notin> insert name D) rows"
  by (induction rows) auto

lemma appendColumnCell_step:
  assumes inv: "loopInv cs col D (grid, rows, missing)" and nd: "name \<notin> D"
    and cell: "cellAt col name = c"
    and step: "appendColumnCell (grid, rows, missing) (name, c) = Inr st'"
  shows "loopInv cs col (insert name D) st'"
proof -
  from inv have cols: "Columns grid = map column (cs @ [col])" and ok: "indexOk grid rows"
    and miss: "missing = filter (\<lambda>(k, a). k \<notin> D) rows"
    and old: "\<forall>c \<in> set cs. fst ` set (cells c) \<subseteq> Name ` set (Rows grid)"
    and Dsub: "D \<subseteq> Name ` set (Rows grid)" and rd: "rowsDone cs col D grid"
    by (simp_all add: loopInv_def)
  show ?thesis
  proof (cases "map_of rows name")
    case (Some addr)
    with step obtain grid1 where md: "modifyRow grid addr (\<lambda>row. appendCell row c 1) = Inr grid1"
      and st': "st' = (grid1, rows, filter (\<lambda>(k, a). k \<noteq> name) missing)"
      by (auto simp: appendColumnCell_def Let_def split: sum.splits)
    from modifyRow_appendCell[OF ok Some md rd nd cell]
    have 1: "indexOk grid1 rows" "rowsDone cs col (insert name D) grid1" "Columns grid1 = Columns grid"
      "map Name (Rows grid1) = map Name (Rows grid)" by simp_all
    from 1(4) have names: "Name ` set (Rows grid1) = Name ` set (Rows grid)"
      by (metis list.set_map)
    from indexOk_Some[OF ok Some] have "name \<in> Name ` set (Rows grid)" by auto
    with Dsub names have Dsub': "insert name D \<subseteq> Name ` set (Rows grid1)" by simp
    have m1: "filter (\<lambda>(k, a). k \<noteq> name) missing = filter (\<lambda>(k, a). k \<notin> insert name D) rows"
      unfolding miss by (rule filter_insert_key)
    have c1: "Columns grid1 = map column (cs @ [col])" using 1(3) cols by simp
    have o1: "\<forall>c \<in> set cs. fst ` set (cells c) \<subseteq> Name ` set (Rows grid1)"
      using old names by simp
    show ?thesis unfolding st' by (rule loopInvI[OF c1 1(1) m1 o1 Dsub' 1(2)])
  next
    case None
    from indexOk_None[OF ok None] have fresh: "name \<notin> Name ` set (Rows grid)" .
    have ncols: "length (Columns grid) = Suc (length cs)" using cols by simp
    have absent: "\<forall>c \<in> set cs. name \<notin> fst ` set (cells c)" using old fresh by blast
    have "\<exists>rowb rowc. rowOf (expected cs name) rowb \<and> Name rowb = name \<and>
            appendCell rowb c 1 = Inr rowc \<and>
            st' = (grid\<lparr>Rows := Rows grid @ [rowc]\<rparr>, rows @ [(name, length (Rows grid))],
                   filter (\<lambda>(k, a). k \<noteq> name) missing)"
    proof (cases "cs = []")
      case True
      with step None ncols obtain rowc where "appendCell (newRow name) c 1 = Inr rowc"
        "st' = (grid\<lparr>Rows := Rows grid @ [rowc]\<rparr>, rows @ [(name, length (Rows grid))],
                 filter (\<lambda>(k, a). k \<noteq> name) missing)"
        by (auto simp: appendColumnCell_def Let_def modifyRow_last split: sum.splits)
      moreover have "rowOf (expected cs name) (newRow name)"
        using True by (simp add: expected_def rowOf_newRow)
      moreover have "Name (newRow name) = name" by (simp add: newRow_def)
      ultimately show ?thesis by blast
    next
      case False
      with step None ncols obtain rowb rowc where
        ap: "appendCell (newRow name) emptyCell (int (length cs)) = Inr rowb"
        and "appendCell rowb c 1 = Inr rowc"
        "st' = (grid\<lparr>Rows := Rows grid @ [rowc]\<rparr>, rows @ [(name, length (Rows grid))],
                 filter (\<lambda>(k, a). k \<noteq> name) missing)"
        by (auto simp: appendColumnCell_def Let_def modifyRow_last split: sum.splits)
      moreover from False have "0 < int (length cs)" by simp
      from appendCell_rowOf[OF rowOf_newRow this ap] appendCell_frame[OF ap]
      have "rowOf (expected cs name) rowb \<and> Name rowb = name"
        by (simp add: expected_absent[OF absent] newRow_def)
      ultimately show ?thesis by blast
    qed
    then obtain rowb rowc where rb: "rowOf (expected cs name) rowb \<and> Name rowb = name"
      and c: "appendCell rowb c 1 = Inr rowc"
      and st': "st' = (grid\<lparr>Rows := Rows grid @ [rowc]\<rparr>, rows @ [(name, length (Rows grid))],
                 filter (\<lambda>(k, a). k \<noteq> name) missing)"
      by blast
    from appendCell_rowOf[OF rb[THEN conjunct1] _ c]
    have rc: "rowOf (expected (cs @ [col]) name) rowc"
      by (simp add: expected_def cell)
    from appendCell_frame[OF c] rb have nc: "Name rowc = name" by simp
    let ?g = "grid\<lparr>Rows := Rows grid @ [rowc]\<rparr>"
    have ok': "indexOk ?g (rows @ [(name, length (Rows grid))])"
      using ok fresh nc by (simp add: indexOk_def)
    have "Name r \<noteq> name" if "r \<in> set (Rows grid)" for r
      using that fresh by blast
    then have rd': "rowsDone cs col (insert name D) ?g"
      using rd rc nc by (simp add: rowsDone_def)
    have "filter (\<lambda>(k, a). k \<notin> insert name D) (rows @ [(name, length (Rows grid))]) =
        filter (\<lambda>(k, a). k \<notin> insert name D) rows" by simp
    then have m': "filter (\<lambda>(k, a). k \<noteq> name) missing =
        filter (\<lambda>(k, a). k \<notin> insert name D) (rows @ [(name, length (Rows grid))])"
      unfolding miss filter_insert_key by simp
    have c': "Columns ?g = map column (cs @ [col])" using cols by simp
    have o': "\<forall>c \<in> set cs. fst ` set (cells c) \<subseteq> Name ` set (Rows ?g)"
      using old by auto
    have D': "insert name D \<subseteq> Name ` set (Rows ?g)" using Dsub nc by auto
    show ?thesis unfolding st' by (rule loopInvI[OF c' ok' m' o' D' rd'])
  qed
qed

lemma foldE_appendColumnCell:
  assumes "distinct (map fst q)" and "fst ` set q \<inter> D = {}"
    and "\<forall>(name, c) \<in> set q. cellAt col name = c"
    and "loopInv cs col D st" and "foldE appendColumnCell st q = Inr st'"
  shows "loopInv cs col (D \<union> fst ` set q) st'"
  using assms
proof (induction q arbitrary: D st)
  case Nil
  then show ?case by simp
next
  case (Cons nc q)
  obtain name c where nc: "nc = (name, c)" by (cases nc)
  obtain grid rows missing where st: "st = (grid, rows, missing)" by (cases st)
  from Cons.prems(5) obtain st1 where 1: "appendColumnCell st nc = Inr st1"
    and 2: "foldE appendColumnCell st1 q = Inr st'"
    by (auto split: sum.splits)
  from Cons.prems nc have nd: "name \<notin> D" and cell: "cellAt col name = c" by auto
  from appendColumnCell_step[OF Cons.prems(4)[unfolded st] nd cell 1[unfolded st nc]]
  have inv1: "loopInv cs col (insert name D) st1" .
  have "loopInv cs col (insert name D \<union> fst ` set q) st'"
  proof (rule Cons.IH[OF _ _ _ inv1 2])
    show "distinct (map fst q)" using Cons.prems(1) by simp
    show "fst ` set q \<inter> insert name D = {}" using Cons.prems(1,2) nc by auto
    show "\<forall>(name, c) \<in> set q. cellAt col name = c" using Cons.prems(3) by simp
  qed
  then show ?case using nc by simp
qed

lemma foldE_appendMissing:
  assumes "indexOk grid rows" and "set ms \<subseteq> set rows" and "distinct (map fst ms)"
    and "fst ` set ms \<inter> D = {}" and "\<forall>k \<in> fst ` set ms. cellAt col k = emptyCell"
    and "rowsDone cs col D grid"
    and "foldE appendMissing grid ms = Inr grid'"
  shows "indexOk grid' rows \<and> rowsDone cs col (D \<union> fst ` set ms) grid' \<and>
         Columns grid' = Columns grid \<and> map Name (Rows grid') = map Name (Rows grid)"
  using assms
proof (induction ms arbitrary: D grid)
  case Nil
  then show ?case by simp
next
  case (Cons ka ms)
  obtain k addr where ka: "ka = (k, addr)" by (cases ka)
  from Cons.prems(7) obtain grid1 where 1: "appendMissing grid ka = Inr grid1"
    and 2: "foldE appendMissing grid1 ms = Inr grid'"
    by (auto split: sum.splits)
  from Cons.prems(2) ka have look: "map_of rows k = Some addr"
    by (intro indexOk_mem[OF Cons.prems(1)]) simp
  from Cons.prems(4,5) ka have kD: "k \<notin> D" and cell: "cellAt col k = emptyCell" by auto
  from 1 ka have md: "modifyRow grid addr (\<lambda>row. appendCell row emptyCell 1) = Inr grid1"
    by (simp add: appendMissing_def)
  from modifyRow_appendCell[OF Cons.prems(1) look md Cons.prems(6) kD cell]
  have s1: "indexOk grid1 rows" "rowsDone cs col (insert k D) grid1" "Columns grid1 = Columns grid"
    "map Name (Rows grid1) = map Name (Rows grid)" by simp_all
  have "indexOk grid' rows \<and> rowsDone cs col (insert k D \<union> fst ` set ms) grid' \<and>
         Columns grid' = Columns grid1 \<and> map Name (Rows grid') = map Name (Rows grid1)"
  proof (rule Cons.IH[OF s1(1) _ _ _ _ s1(2) 2])
    show "set ms \<subseteq> set rows" using Cons.prems(2) by simp
    show "distinct (map fst ms)" using Cons.prems(3) by simp
    show "fst ` set ms \<inter> insert k D = {}" using Cons.prems(3,4) ka by auto
    show "\<forall>k \<in> fst ` set ms. cellAt col k = emptyCell" using Cons.prems(5) by simp
  qed
  with s1 ka show ?case by simp
qed

lemma cellAt_mem:
  "distinct (map fst (cells col)) \<Longrightarrow> (name, c) \<in> set (cells col) \<Longrightarrow> cellAt col name = c"
  by (simp add: cellAt_def)

lemma cellAt_absent: "name \<notin> fst ` set (cells col) \<Longrightarrow> cellAt col name = emptyCell"
  by (simp add: cellAt_def map_of_eq_None_iff[THEN iffD2])

lemma appendColumn_gridInv:
  assumes inv: "gridInv cs grid rows" and dist: "distinct (map fst (cells col))"
    and app: "appendColumn grid rows col = Inr (grid', rows')"
  shows "gridInv (cs @ [col]) grid' rows'"
proof -
  let ?D = "fst ` set (cells col)"
  let ?g1 = "grid\<lparr>Columns := Columns grid @ [column col]\<rparr>"
  from app obtain grid2 missing where
    f1: "foldE appendColumnCell (?g1, rows, rows) (cells col) = Inr (grid2, rows', missing)"
    and f2: "foldE appendMissing grid2 missing = Inr grid'"
    by (auto simp: appendColumn_def Let_def split: sum.splits prod.splits)
  have "filter (\<lambda>(k, a). k \<notin> {}) rows = rows" by (induction rows) auto
  then have m0: "rows = filter (\<lambda>(k, a). k \<notin> {}) rows" by simp
  have i0: "loopInv cs col {} (?g1, rows, rows)"
    using inv by (intro loopInvI m0) (auto simp: gridInv_def indexOk_def rowsDone_def)
  have "loopInv cs col ({} \<union> ?D) (grid2, rows', missing)"
  proof (rule foldE_appendColumnCell[OF dist _ _ i0 f1])
    show "?D \<inter> {} = {}" by simp
    show "\<forall>(name, c) \<in> set (cells col). cellAt col name = c"
      using cellAt_mem[OF dist] by auto
  qed
  then have cols2: "Columns grid2 = map column (cs @ [col])" and ok2: "indexOk grid2 rows'"
    and miss: "missing = filter (\<lambda>(k, a). k \<notin> ?D) rows'"
    and old2: "\<forall>c \<in> set cs. fst ` set (cells c) \<subseteq> Name ` set (Rows grid2)"
    and D2: "?D \<subseteq> Name ` set (Rows grid2)" and rd2: "rowsDone cs col ?D grid2"
    by (simp_all add: loopInv_def)
  have dr: "distinct (map fst rows')" using ok2 by (simp add: indexOk_def)
  have keys: "fst ` set rows' = Name ` set (Rows grid2)"
    using ok2 by (simp add: indexOk_def set_zip_leftD) (metis length_map length_upt map_fst_zip list.set_map minus_nat.diff_0)
  have nk: "\<forall>x \<in> set missing. fst x \<notin> ?D"
    unfolding miss by (simp add: case_prod_unfold)
  have "indexOk grid' rows' \<and> rowsDone cs col (?D \<union> fst ` set missing) grid' \<and>
         Columns grid' = Columns grid2 \<and> map Name (Rows grid') = map Name (Rows grid2)"
  proof (rule foldE_appendMissing[OF ok2 _ _ _ _ rd2 f2])
    show "set missing \<subseteq> set rows'" using miss by auto
    show "distinct (map fst missing)" unfolding miss using dr by (rule distinct_map_filter)
    show "fst ` set missing \<inter> ?D = {}" using nk by blast
    show "\<forall>k \<in> fst ` set missing. cellAt col k = emptyCell"
      using nk cellAt_absent by blast
  qed
  then have ok3: "indexOk grid' rows'" and rd3: "rowsDone cs col (?D \<union> fst ` set missing) grid'"
    and cols3: "Columns grid' = Columns grid2" and names3: "map Name (Rows grid') = map Name (Rows grid2)"
    by simp_all
  from names3 have nset: "Name ` set (Rows grid') = Name ` set (Rows grid2)" by (metis list.set_map)
  have all: "Name r \<in> ?D \<union> fst ` set missing" if "r \<in> set (Rows grid')" for r
  proof -
    from that nset keys have "Name r \<in> fst ` set rows'" by blast
    then obtain a where "(Name r, a) \<in> set rows'" by auto
    then show ?thesis using miss by (cases "Name r \<in> ?D") force+
  qed
  have rows: "\<forall>r \<in> set (Rows grid'). rowOf (expected (cs @ [col]) (Name r)) r"
    using rd3 all by (simp add: rowsDone_def)
  show ?thesis
    unfolding gridInv_def using cols3 cols2 ok3 old2 D2 nset rows by auto
qed

lemma alertRows_frame:
  "alertRows cols rs f p = Inr rs' \<Longrightarrow>
   list_all2 (\<lambda>r r'. \<exists>a. alertRow cols r f p = Inr a \<and> r' = r\<lparr>AlertInfo := a\<rparr>) rs rs'"
proof (induction rs arbitrary: rs')
  case Nil
  then show ?case by simp
next
  case (Cons r rs)
  then show ?case by (auto split: sum.splits)
qed

lemma rowOf_alerted: "rowOf cs (r\<lparr>AlertInfo := a\<rparr>) = rowOf cs r"
  by (simp add: rowOf_def)

lemma gridInv_alerted:
  assumes "gridInv cs grid rows"
    and "list_all2 (\<lambda>r r'. \<exists>a. Q r a \<and> r' = r\<lparr>AlertInfo := a\<rparr>) (Rows grid) rs"
  shows "gridInv cs (grid\<lparr>Rows := rs\<rparr>) rows"
proof -
  from assms(2) have len: "length rs = length (Rows grid)"
    and nth: "\<And>i. i < length rs \<Longrightarrow> \<exists>a. rs ! i = (Rows grid ! i)\<lparr>AlertInfo := a\<rparr>"
    by (auto simp: list_all2_conv_all_nth)
  have names: "map Name rs = map Name (Rows grid)"
  proof (rule nth_equalityI)
    show "length (map Name rs) = length (map Name (Rows grid))" using len by simp
    fix i assume "i < length (map Name rs)"
    then have i: "i < length rs" by simp
    from nth[OF i] obtain a where "rs ! i = (Rows grid ! i)\<lparr>AlertInfo := a\<rparr>" ..
    then show "map Name rs ! i = map Name (Rows grid) ! i" using i len by simp
  qed
  then have nset: "Name ` set rs = Name ` set (Rows grid)" by (metis list.set_map)
  have rows: "rowOf (expected cs (Name r)) r" if "r \<in> set rs" for r
  proof -
    from that obtain i where i: "i < length rs" "r = rs ! i" by (auto simp: in_set_conv_nth)
    from nth[OF i(1)] obtain a where a: "rs ! i = (Rows grid ! i)\<lparr>AlertInfo := a\<rparr>" ..
    from assms(1) i(1) len have "rowOf (expected cs (Name (Rows grid ! i))) (Rows grid ! i)"
      by (simp add: gridInv_def)
    with a i show ?thesis by (simp add: rowOf_alerted)
  qed
  show ?thesis
    using assms(1) names nset rows len by (simp add: gridInv_def indexOk_def)
qed

lemma constructStep_gridInv:
  assumes "gridInv cs grid rows" and "distinct (map fst (cells col))"
    and "constructStep f p (grid, rows) col = Inr (grid', rows')"
  shows "gridInv (cs @ [col]) grid' rows'"
proof -
  from assms(3) obtain grid1 rs where 1: "appendColumn grid rows col = Inr (grid1, rows')"
    and 2: "alertRows (Columns grid1) (Rows grid1) f p = Inr rs"
    and 3: "grid' = grid1\<lparr>Rows := rs\<rparr>"
    by (auto simp: constructStep_def split: sum.splits prod.splits)
  from appendColumn_gridInv[OF assms(1,2) 1] have "gridInv (cs @ [col]) grid1 rows'" .
  from gridInv_alerted[OF this alertRows_frame[OF 2]] 3 show ?thesis by simp
qed

lemma foldE_constructStep_gridInv:
  assumes "gridInv cs grid rows" and "\<forall>col \<in> set cols. distinct (map fst (cells col))"
    and "foldE (constructStep f p) (grid, rows) cols = Inr (grid', rows')"
  shows "gridInv (cs @ cols) grid' rows'"
  using assms
proof (induction cols arbitrary: cs grid rows)
  case Nil
  then show ?case by simp
next
  case (Cons col cols)
  from Cons.prems(3) obtain grid1 rows1 where
    1: "constructStep f p (grid, rows) col = Inr (grid1, rows1)"
    and 2: "foldE (constructStep f p) (grid1, rows1) cols = Inr (grid', rows')"
    by (auto split: sum.splits)
  from constructStep_gridInv[OF Cons.prems(1) _ 1] Cons.prems(2)
  have "gridInv (cs @ [col]) grid1 rows1" by simp
  from Cons.IH[OF this _ 2] Cons.prems(2) show ?case by simp
qed

lemma gridInv_empty: "gridInv [] emptyGrid []"
  by (simp add: gridInv_def emptyGrid_def indexOk_def)

lemma set_insertStable: "set (insertStable lt x ys) = insert x (set ys)"
  by (induction ys) auto

lemma set_SliceStable: "set (SliceStable lt xs) = set xs"
  by (induction xs) (auto simp: set_insertStable)

lemma rowOf_sortMetrics: "rowOf cs (sortMetrics N r) = rowOf cs r"
  by (simp add: rowOf_def sortMetrics_def)

lemma constructGrid_rows:
  assumes "constructGrid N grp cols = Inr grid"
    and "\<forall>col \<in> set cols. distinct (map fst (cells col))"
  shows "Columns grid = map column cols \<and>
         (\<forall>r \<in> set (Rows grid). rowOf (expected cols (Name r)) r)"
proof -
  from assms(1) obtain g rows f p where
    1: "foldE (constructStep f p) (emptyGrid, []) cols = Inr (g, rows)"
    and 2: "grid = sortGrid N g"
    by (auto simp: constructGrid_def Let_def split: sum.splits prod.splits)
  from foldE_constructStep_gridInv[OF gridInv_empty assms(2) 1]
  have inv: "gridInv cols g rows" by simp
  have "rowOf (expected cols (Name r)) r" if "r \<in> set (Rows grid)" for r
  proof -
    from that 2 obtain r0 where "r0 \<in> set (Rows g)" "r = sortMetrics N r0"
      by (auto simp: sortGrid_def set_SliceStable)
    moreover have "Name (sortMetrics N r0) = Name r0" by (simp add: sortMetrics_def)
    ultimately show ?thesis using inv by (simp add: gridInv_def rowOf_sortMetrics)
  qed
  with inv 2 show ?thesis by (simp add: gridInv_def sortGrid_def)
qed

section \<open>Metric names, row names and the sorts\<close>

lemma foldE_invariant:
  assumes "\<And>s x s'. I s \<Longrightarrow> f s x = Inr s' \<Longrightarrow> I s'" and "I s" and "foldE f s xs = Inr s'"
  shows "I s'"
  using assms(2,3)
proof (induction xs arbitrary: s)
  case Nil
  then show ?case by simp
next
  case (Cons x xs)
  from Cons.prems(2) obtain s1 where 1: "f s x = Inr s1" and 2: "foldE f s1 xs = Inr s'"
    by (auto split: sum.splits)
  from Cons.IH[OF assms(1)[OF Cons.prems(1) 1] 2] show ?case .
qed

lemma findMetric_None: "(findMetric ms n = None) = (n \<notin> mName ` set ms)"
  by (induction ms) auto

lemma findMetric_Some: "findMetric ms n = Some k \<Longrightarrow> k < length ms \<and> mName (ms ! k) = n"
proof (induction ms arbitrary: k)
  case Nil
  then show ?case by simp
next
  case (Cons m ms)
  then show ?case by (auto split: if_splits)
qed

lemma map_mName_update:
  "k < length ms \<Longrightarrow> mName m' = mName (ms ! k) \<Longrightarrow> map mName (ms[k := m']) = map mName ms"
  by (simp add: map_update list_update_same_conv)

lemma appendCellMetric_named:
  assumes "metricsNamed row" and "appendCellMetric row nm = Inr row'"
  shows "metricsNamed row'"
proof -
  obtain n v where nm: "nm = (n, v)" by (cases nm)
  from assms(1) have inv: "map mName (Metrics row) = Metric row" by (simp add: metricsNamed_def)
  show ?thesis
  proof (cases "findMetric (Metrics row) n")
    case None
    then have "n \<notin> set (Metric row)" using inv findMetric_None[of "Metrics row" n]
      by (metis list.set_map)
    with assms(2) nm None obtain m' where
      1: "appendMetric \<lparr>mName = n, Indices = [], Values = []\<rparr> (int32 (int (length (CellIds row)) - 1)) v = Inr m'"
      and 2: "row' = row\<lparr>Metric := Metric row @ [n], Metrics := Metrics row @ [m']\<rparr>"
      by (auto simp: appendCellMetric_def Let_def split: sum.splits)
    from appendMetric_mName[OF 1] 2 inv show ?thesis by (simp add: metricsNamed_def)
  next
    case (Some k)
    from findMetric_Some[OF Some] have k: "k < length (Metrics row)" "mName (Metrics row ! k) = n"
      by simp_all
    then have "n \<in> set (Metric row)" using inv by (metis length_map nth_map nth_mem)
    with assms(2) nm Some obtain m' where
      1: "appendMetric (Metrics row ! k) (int32 (int (length (CellIds row)) - 1)) v = Inr m'"
      and 2: "row' = row\<lparr>Metrics := (Metrics row)[k := m']\<rparr>"
      by (auto simp: appendCellMetric_def Let_def split: sum.splits)
    from appendMetric_mName[OF 1] 2 inv k show ?thesis
      by (simp add: metricsNamed_def map_mName_update)
  qed
qed

lemma appendCellLoop_named:
  "metricsNamed row \<Longrightarrow> appendCellLoop c k row = Inr row' \<Longrightarrow> metricsNamed row'"
proof (induction k arbitrary: row)
  case 0
  then show ?case by simp
next
  case (Suc k)
  let ?row1 = "row\<lparr>CellIds := CellIds row @ [cellID c]\<rparr>"
  have n1: "metricsNamed ?row1" using Suc.prems(1) by (simp add: metricsNamed_def)
  show ?case
  proof (cases "result c = Row_NO_RESULT")
    case True
    with Suc.prems(2) have "appendCellLoop c k ?row1 = Inr row'" by (simp add: Let_def)
    from Suc.IH[OF n1 this] show ?thesis .
  next
    case False
    with Suc.prems(2) obtain row2 where
      1: "foldE appendCellMetric ?row1 (metrics c) = Inr row2"
      and 2: "appendCellLoop c k (row2\<lparr>Messages := Messages row2 @ [message c],
                Icons := Icons row2 @ [icon c]\<rparr>) = Inr row'"
      by (auto simp: Let_def split: sum.splits)
    from foldE_invariant[of metricsNamed appendCellMetric, OF appendCellMetric_named n1 1]
    have "metricsNamed row2" .
    then have "metricsNamed (row2\<lparr>Messages := Messages row2 @ [message c],
                Icons := Icons row2 @ [icon c]\<rparr>)" by (simp add: metricsNamed_def)
    from Suc.IH[OF this 2] show ?thesis .
  qed
qed

lemma appendCell_named:
  assumes "metricsNamed row" and "appendCell row c count = Inr row'"
  shows "metricsNamed row'"
proof -
  from assms(2) obtain row1 where 1: "appendCellLoop c (nat count) row1 = Inr row'"
    and 2: "Metric row1 = Metric row" "Metrics row1 = Metrics row"
    by (auto simp: appendCell_def Let_def split: sum.splits if_splits)
  from assms(1) 2 have "metricsNamed row1" by (simp add: metricsNamed_def)
  from appendCellLoop_named[OF this 1] show ?thesis .
qed

lemma modifyRow_allRows:
  assumes "\<And>row row'. P row \<Longrightarrow> f row = Inr row' \<Longrightarrow> P row'"
    and "\<forall>r \<in> set (Rows grid). P r" and "modifyRow grid addr f = Inr grid'"
  shows "\<forall>r \<in> set (Rows grid'). P r"
proof (cases "addr < length (Rows grid)")
  case True
  with assms(3) obtain row' where 1: "f (Rows grid ! addr) = Inr row'"
    and 2: "grid' = grid\<lparr>Rows := (Rows grid)[addr := row']\<rparr>"
    by (auto simp: modifyRow_def split: sum.splits)
  from assms(2) True have "P (Rows grid ! addr)" by simp
  from assms(1)[OF this 1] have "P row'" .
  with assms(2) 2 show ?thesis
    using set_update_subset_insert[of "Rows grid" addr row'] by auto
next
  case False
  with assms(2,3) show ?thesis by (simp add: modifyRow_def)
qed

lemma appendColumnCell_allRows:
  assumes step: "\<And>row c count row'. P row \<Longrightarrow> appendCell row c count = Inr row' \<Longrightarrow> P row'"
    and new: "\<And>name. P (newRow name)"
    and all: "\<forall>r \<in> set (Rows (fst st)). P r" and app: "appendColumnCell st nc = Inr st'"
  shows "\<forall>r \<in> set (Rows (fst st')). P r"
proof -
  obtain grid rows missing where st: "st = (grid, rows, missing)" by (cases st)
  obtain name c where nc: "nc = (name, c)" by (cases nc)
  show ?thesis
  proof (cases "map_of rows name")
    case (Some addr)
    with app st nc obtain grid1 where
      1: "modifyRow grid addr (\<lambda>row. appendCell row c 1) = Inr grid1" and 2: "fst st' = grid1"
      by (auto simp: appendColumnCell_def Let_def split: sum.splits)
    from modifyRow_allRows[of P "\<lambda>row. appendCell row c 1", OF step _ 1] all st 2
    show ?thesis by simp
  next
    case None
    let ?g1 = "grid\<lparr>Rows := Rows grid @ [newRow name]\<rparr>"
    let ?n = "int (length (Columns ?g1))"
    from app st nc None obtain grid2 grid3 where
      1: "(if ?n > 1 then modifyRow ?g1 (length (Rows grid)) (\<lambda>row. appendCell row emptyCell (?n - 1))
           else Inr ?g1) = Inr grid2"
      and 2: "modifyRow grid2 (length (Rows grid)) (\<lambda>row. appendCell row c 1) = Inr grid3"
      and 3: "fst st' = grid3"
      by (auto simp: appendColumnCell_def Let_def split: sum.splits)
    have a1: "\<forall>r \<in> set (Rows ?g1). P r" using all st new by simp
    have a2: "\<forall>r \<in> set (Rows grid2). P r"
    proof (cases "?n > 1")
      case True
      with 1 have "modifyRow ?g1 (length (Rows grid)) (\<lambda>row. appendCell row emptyCell (?n - 1)) = Inr grid2"
        by simp
      from modifyRow_allRows[of P "\<lambda>row. appendCell row emptyCell (?n - 1)", OF step a1 this]
      show ?thesis .
    next
      case False
      with 1 have "grid2 = ?g1" by simp
      with a1 show ?thesis by blast
    qed
    from modifyRow_allRows[of P "\<lambda>row. appendCell row c 1", OF step a2 2] 3
    show ?thesis by simp
  qed
qed

lemma appendColumn_allRows:
  assumes step: "\<And>row c count row'. P row \<Longrightarrow> appendCell row c count = Inr row' \<Longrightarrow> P row'"
    and new: "\<And>name. P (newRow name)"
    and all: "\<forall>r \<in> set (Rows grid). P r" and app: "appendColumn grid rows col = Inr (grid', rows')"
  shows "\<forall>r \<in> set (Rows grid'). P r"
proof -
  let ?g1 = "grid\<lparr>Columns := Columns grid @ [column col]\<rparr>"
  from app obtain grid2 missing where
    f1: "foldE appendColumnCell (?g1, rows, rows) (cells col) = Inr (grid2, rows', missing)"
    and f2: "foldE appendMissing grid2 missing = Inr grid'"
    by (auto simp: appendColumn_def Let_def split: sum.splits prod.splits)
  have "\<forall>r \<in> set (Rows (fst (grid2, rows', missing))). P r"
  proof (rule foldE_invariant[of "\<lambda>st. \<forall>r \<in> set (Rows (fst st)). P r" appendColumnCell, OF _ _ f1])
    show "\<forall>r \<in> set (Rows (fst (?g1, rows, rows))). P r" using all by simp
    show "\<forall>r \<in> set (Rows (fst s')). P r"
      if "\<forall>r \<in> set (Rows (fst s)). P r" "appendColumnCell s x = Inr s'" for s x s'
      using appendColumnCell_allRows[of P, OF step new that] .
  qed
  then have a2: "\<forall>r \<in> set (Rows grid2). P r" by simp
  show ?thesis
  proof (rule foldE_invariant[of "\<lambda>g. \<forall>r \<in> set (Rows g). P r" appendMissing, OF _ a2 f2])
    show "\<forall>r \<in> set (Rows s'). P r"
      if "\<forall>r \<in> set (Rows s). P r" "appendMissing s x = Inr s'" for s x s'
      using modifyRow_allRows[of P "\<lambda>row. appendCell row emptyCell 1", OF step that(1)]
        that(2) by (simp add: appendMissing_def)
  qed
qed

lemma constructStep_allRows:
  assumes step: "\<And>row c count row'. P row \<Longrightarrow> appendCell row c count = Inr row' \<Longrightarrow> P row'"
    and new: "\<And>name. P (newRow name)" and alert: "\<And>r a. P r \<Longrightarrow> P (r\<lparr>AlertInfo := a\<rparr>)"
    and all: "\<forall>r \<in> set (Rows (fst st)). P r" and app: "constructStep f p st col = Inr st'"
  shows "\<forall>r \<in> set (Rows (fst st')). P r"
proof -
  obtain grid rows where st: "st = (grid, rows)" by (cases st)
  from app st obtain grid1 rows1 rs where 1: "appendColumn grid rows col = Inr (grid1, rows1)"
    and 2: "alertRows (Columns grid1) (Rows grid1) f p = Inr rs"
    and 3: "fst st' = grid1\<lparr>Rows := rs\<rparr>"
    by (auto simp: constructStep_def split: sum.splits prod.splits)
  from appendColumn_allRows[of P, OF step new _ 1] all st
  have a1: "\<forall>r \<in> set (Rows grid1). P r" by simp
  have "P r'" if "r' \<in> set rs" for r'
  proof -
    from that obtain i where i: "i < length rs" "r' = rs ! i" by (auto simp: in_set_conv_nth)
    from alertRows_frame[OF 2] i obtain a where
      "r' = (Rows grid1 ! i)\<lparr>AlertInfo := a\<rparr>" "i < length (Rows grid1)"
      by (auto simp: list_all2_conv_all_nth)
    with a1 alert show ?thesis by simp
  qed
  with 3 show ?thesis by simp
qed

lemma constructGrid_allRows:
  assumes step: "\<And>row c count row'. P row \<Longrightarrow> appendCell row c count = Inr row' \<Longrightarrow> P row'"
    and new: "\<And>name. P (newRow name)" and alert: "\<And>r a. P r \<Longrightarrow> P (r\<lparr>AlertInfo := a\<rparr>)"
    and app: "constructGrid N grp cols = Inr grid"
  shows "\<exists>g. grid = sortGrid N g \<and> (\<forall>r \<in> set (Rows g). P r)"
proof -
  from app obtain g rows f p where
    1: "foldE (constructStep f p) (emptyGrid, []) cols = Inr (g, rows)"
    and 2: "grid = sortGrid N g"
    by (auto simp: constructGrid_def Let_def split: sum.splits prod.splits)
  have "\<forall>r \<in> set (Rows (fst (g, rows))). P r"
  proof (rule foldE_invariant[of "\<lambda>st. \<forall>r \<in> set (Rows (fst st)). P r" "constructStep f p", OF _ _ 1])
    show "\<forall>r \<in> set (Rows (fst (emptyGrid, []))). P r" by (simp add: emptyGrid_def)
    show "\<forall>r \<in> set (Rows (fst s')). P r"
      if "\<forall>r \<in> set (Rows (fst s)). P r" "constructStep f p s x = Inr s'" for s x s'
      using constructStep_allRows[of P, OF step new alert that] .
  qed
  with 2 show ?thesis by auto
qed

lemma sorted_insertStable:
  assumes "strictWeakOrder lt" and "sortedBy lt ys"
  shows "sortedBy lt (insertStable lt x ys)"
  using assms(2)
proof (induction ys)
  case Nil
  then show ?case by (simp add: sortedBy_def)
next
  case (Cons y ys)
  from assms(1) have asym: "\<And>a b. lt a b \<Longrightarrow> \<not> lt b a"
    and trans: "\<And>a b c. \<not> lt b a \<Longrightarrow> \<not> lt c b \<Longrightarrow> \<not> lt c a"
    unfolding strictWeakOrder_def by blast+
  show ?case
  proof (cases "lt y x")
    case True
    from Cons have "sortedBy lt (insertStable lt x ys)" by (simp add: sortedBy_def)
    moreover have "\<not> lt z y" if "z \<in> set (insertStable lt x ys)" for z
      using that Cons.prems asym[OF True] by (auto simp: set_insertStable sortedBy_def)
    ultimately show ?thesis using True by (simp add: sortedBy_def)
  next
    case False
    have "\<not> lt z x" if "z \<in> set ys" for z
    proof -
      from Cons.prems that have "\<not> lt z y" by (simp add: sortedBy_def)
      from trans[OF False this] show ?thesis .
    qed
    with False Cons.prems show ?thesis by (simp add: sortedBy_def)
  qed
qed

lemma sorted_SliceStable: "strictWeakOrder lt \<Longrightarrow> sortedBy lt (SliceStable lt xs)"
proof (induction xs)
  case Nil
  then show ?case by (simp add: sortedBy_def)
next
  case (Cons x xs)
  then show ?case by (simp add: sorted_insertStable)
qed

lemma strictWeakOrder_key:
  "strictWeakOrder lt \<Longrightarrow> strictWeakOrder (\<lambda>a b. lt (key a) (key b))"
  unfolding strictWeakOrder_def by blast

lemma map_insertStable:
  "map key (insertStable (\<lambda>a b. lt (key a) (key b)) x ys) = insertStable lt (key x) (map key ys)"
  by (induction ys) auto

lemma map_SliceStable:
  "map key (SliceStable (\<lambda>a b. lt (key a) (key b)) xs) = SliceStable lt (map key xs)"
  by (induction xs) (auto simp: map_insertStable)

lemma metricsNamed_facts:
  "metricsNamed (newRow name)" "metricsNamed r \<Longrightarrow> metricsNamed (r\<lparr>AlertInfo := a\<rparr>)"
  by (simp_all add: metricsNamed_def newRow_def)

lemma modifyRow_names:
  assumes "modifyRow grid addr (\<lambda>row. appendCell row c n) = Inr grid'"
  shows "map Name (Rows grid') = map Name (Rows grid) \<and> Columns grid' = Columns grid"
proof (cases "addr < length (Rows grid)")
  case True
  with assms obtain row' where 1: "appendCell (Rows grid ! addr) c n = Inr row'"
    and 2: "grid' = grid\<lparr>Rows := (Rows grid)[addr := row']\<rparr>"
    by (auto simp: modifyRow_def split: sum.splits)
  from appendCell_frame[OF 1] have "Name row' = Name (Rows grid ! addr)" by simp
  with 2 True show ?thesis by (simp add: map_update list_update_same_conv)
next
  case False
  with assms show ?thesis by (simp add: modifyRow_def)
qed

lemma appendColumnCell_names:
  assumes "namesInv names st" and "appendColumnCell st nc = Inr st'"
  shows "namesInv (addName names (fst nc)) st'"
proof -
  obtain grid rows missing where st: "st = (grid, rows, missing)" by (cases st)
  obtain name c where nc: "nc = (name, c)" by (cases nc)
  from assms(1) st have ok: "indexOk grid rows" and nm: "map Name (Rows grid) = names"
    by (simp_all add: namesInv_def)
  show ?thesis
  proof (cases "map_of rows name")
    case (Some addr)
    with assms(2) st nc obtain grid1 where
      1: "modifyRow grid addr (\<lambda>row. appendCell row c 1) = Inr grid1"
      and 2: "st' = (grid1, rows, filter (\<lambda>(k, a). k \<noteq> name) missing)"
      by (auto simp: appendColumnCell_def Let_def split: sum.splits)
    from indexOk_Some[OF ok Some] nm have "name \<in> set names" by (metis length_map nth_map nth_mem)
    moreover from modifyRow_names[OF 1] have "length (Rows grid1) = length (Rows grid)"
      by (metis length_map)
    ultimately show ?thesis using modifyRow_names[OF 1] ok nm 2 nc
      by (simp add: namesInv_def indexOk_def addName_def)
  next
    case None
    from indexOk_None[OF ok None] nm have fresh: "name \<notin> set names" by (metis list.set_map)
    let ?g1 = "grid\<lparr>Rows := Rows grid @ [newRow name]\<rparr>"
    let ?n = "int (length (Columns ?g1))"
    from assms(2) st nc None obtain grid2 grid3 where
      1: "(if ?n > 1 then modifyRow ?g1 (length (Rows grid)) (\<lambda>row. appendCell row emptyCell (?n - 1))
           else Inr ?g1) = Inr grid2"
      and 2: "modifyRow grid2 (length (Rows grid)) (\<lambda>row. appendCell row c 1) = Inr grid3"
      and 3: "st' = (grid3, rows @ [(name, length (Rows grid))], filter (\<lambda>(k, a). k \<noteq> name) missing)"
      by (auto simp: appendColumnCell_def Let_def split: sum.splits)
    have "map Name (Rows grid2) = map Name (Rows ?g1)"
    proof (cases "?n > 1")
      case True
      with 1 have "modifyRow ?g1 (length (Rows grid)) (\<lambda>row. appendCell row emptyCell (?n - 1)) = Inr grid2"
        by simp
      from modifyRow_names[OF this] show ?thesis by simp
    next
      case False
      with 1 have "grid2 = ?g1" by simp
      then show ?thesis by simp
    qed
    with modifyRow_names[OF 2] nm have n3: "map Name (Rows grid3) = names @ [name]"
      by (simp add: newRow_def)
    then have "length (Rows grid3) = Suc (length (Rows grid))" using nm
      by (metis length_append_singleton length_map)
    moreover have "length names = length (Rows grid)" using nm by (metis length_map)
    ultimately have "indexOk grid3 (rows @ [(name, length (Rows grid))])"
      using n3 ok nm fresh by (simp add: indexOk_def)
    with n3 3 nc fresh show ?thesis by (simp add: namesInv_def addName_def)
  qed
qed

lemma foldE_appendColumnCell_names:
  "namesInv names st \<Longrightarrow> foldE appendColumnCell st q = Inr st' \<Longrightarrow>
   namesInv (foldl addName names (map fst q)) st'"
proof (induction q arbitrary: names st)
  case Nil
  then show ?case by simp
next
  case (Cons nc q)
  from Cons.prems(2) obtain st1 where 1: "appendColumnCell st nc = Inr st1"
    and 2: "foldE appendColumnCell st1 q = Inr st'"
    by (auto split: sum.splits)
  from Cons.IH[OF appendColumnCell_names[OF Cons.prems(1) 1] 2] show ?case by simp
qed

lemma appendColumn_names:
  assumes "indexOk grid rows" and "appendColumn grid rows col = Inr (grid', rows')"
  shows "indexOk grid' rows' \<and>
         map Name (Rows grid') = foldl addName (map Name (Rows grid)) (map fst (cells col))"
proof -
  let ?g1 = "grid\<lparr>Columns := Columns grid @ [column col]\<rparr>"
  from assms(2) obtain grid2 missing where
    f1: "foldE appendColumnCell (?g1, rows, rows) (cells col) = Inr (grid2, rows', missing)"
    and f2: "foldE appendMissing grid2 missing = Inr grid'"
    by (auto simp: appendColumn_def Let_def split: sum.splits prod.splits)
  have "namesInv (map Name (Rows grid)) (?g1, rows, rows)"
    using assms(1) by (simp add: namesInv_def indexOk_def)
  from foldE_appendColumnCell_names[OF this f1]
  have ok2: "indexOk grid2 rows'"
    and n2: "map Name (Rows grid2) = foldl addName (map Name (Rows grid)) (map fst (cells col))"
    by (simp_all add: namesInv_def)
  have "map Name (Rows grid') = map Name (Rows grid2)"
  proof (rule foldE_invariant[of "\<lambda>g. map Name (Rows g) = map Name (Rows grid2)" appendMissing,
        OF _ _ f2])
    show "map Name (Rows grid2) = map Name (Rows grid2)" ..
    show "map Name (Rows s') = map Name (Rows grid2)"
      if "map Name (Rows s) = map Name (Rows grid2)" "appendMissing s x = Inr s'" for s x s'
      using that modifyRow_names[of s "snd x" emptyCell 1 s'] by (simp add: appendMissing_def)
  qed
  with ok2 n2 show ?thesis by (simp add: indexOk_def) (metis length_map)
qed

lemma alertRows_names:
  assumes "alertRows cols rs f p = Inr rs'"
  shows "map Name rs' = map Name rs"
proof (rule nth_equalityI)
  from alertRows_frame[OF assms] have len: "length rs = length rs'"
    and nth: "\<And>i. i < length rs \<Longrightarrow> \<exists>a. rs' ! i = (rs ! i)\<lparr>AlertInfo := a\<rparr>"
    by (auto simp: list_all2_conv_all_nth)
  show "length (map Name rs') = length (map Name rs)" using len by simp
  fix i assume "i < length (map Name rs')"
  with len have i: "i < length rs" by simp
  from nth[OF i] obtain a where "rs' ! i = (rs ! i)\<lparr>AlertInfo := a\<rparr>" ..
  with i len show "map Name rs' ! i = map Name rs ! i" by simp
qed

lemma constructStep_names:
  assumes "indexOk grid rows" and "constructStep f p (grid, rows) col = Inr (grid', rows')"
  shows "indexOk grid' rows' \<and>
         map Name (Rows grid') = foldl addName (map Name (Rows grid)) (map fst (cells col))"
proof -
  from assms(2) obtain grid1 rs where 1: "appendColumn grid rows col = Inr (grid1, rows')"
    and 2: "alertRows (Columns grid1) (Rows grid1) f p = Inr rs"
    and 3: "grid' = grid1\<lparr>Rows := rs\<rparr>"
    by (auto simp: constructStep_def split: sum.splits prod.splits)
  from appendColumn_names[OF assms(1) 1] alertRows_names[OF 2] 3
  show ?thesis by (simp add: indexOk_def) (metis length_map)
qed

lemma foldE_constructStep_names:
  "indexOk grid rows \<Longrightarrow> foldE (constructStep f p) (grid, rows) cols = Inr (grid', rows') \<Longrightarrow>
   map Name (Rows grid') = foldl addName (map Name (Rows grid)) (cellNames cols)"
proof (induction cols arbitrary: grid rows)
  case Nil
  then show ?case by (simp add: cellNames_def)
next
  case (Cons col cols)
  from Cons.prems(2) obtain grid1 rows1 where
    1: "constructStep f p (grid, rows) col = Inr (grid1, rows1)"
    and 2: "foldE (constructStep f p) (grid1, rows1) cols = Inr (grid', rows')"
    by (auto split: sum.splits)
  from constructStep_names[OF Cons.prems(1) 1] Cons.IH[OF _ 2]
  show ?case by (simp add: cellNames_def)
qed

lemma tied_trans:
  assumes "strictWeakOrder lt" and "tied lt a k" and "tied lt b k"
  shows "tied lt a b"
proof -
  from assms(1) have trans: "\<And>a b c. \<not> lt b a \<Longrightarrow> \<not> lt c b \<Longrightarrow> \<not> lt c a"
    unfolding strictWeakOrder_def by blast
  from assms(2,3) have "\<not> lt a k" "\<not> lt k a" "\<not> lt b k" "\<not> lt k b" by (simp_all add: tied_def)
  with trans[of k b a] trans[of k a b] show ?thesis unfolding tied_def by blast
qed

lemma filter_insertStable:
  assumes "strictWeakOrder lt"
  shows "filter (\<lambda>x. tied lt x k) (insertStable lt x ys) =
         (if tied lt x k then x # filter (\<lambda>x. tied lt x k) ys else filter (\<lambda>x. tied lt x k) ys)"
proof (induction ys)
  case Nil
  then show ?case by simp
next
  case (Cons y ys)
  show ?case
  proof (cases "lt y x")
    case True
    have "\<not> tied lt y k" if "tied lt x k"
    proof
      assume "tied lt y k"
      from tied_trans[OF assms this that] True show False by (simp add: tied_def)
    qed
    with True Cons show ?thesis by simp
  next
    case False
    then show ?thesis by simp
  qed
qed

lemma filter_SliceStable:
  "strictWeakOrder lt \<Longrightarrow>
   filter (\<lambda>x. tied lt x k) (SliceStable lt xs) = filter (\<lambda>x. tied lt x k) xs"
  by (induction xs) (simp_all add: filter_insertStable)

lemma constructGrid_names:
  assumes "constructGrid N grp cols = Inr grid"
  shows "map Name (Rows grid) = SliceStable N (firstSeen (cellNames cols))"
proof -
  from assms obtain g rows f p where
    1: "foldE (constructStep f p) (emptyGrid, []) cols = Inr (g, rows)"
    and 2: "grid = sortGrid N g"
    by (auto simp: constructGrid_def Let_def split: sum.splits prod.splits)
  have "indexOk emptyGrid []" by (simp add: indexOk_def emptyGrid_def)
  from foldE_constructStep_names[OF this 1]
  have "map Name (Rows g) = firstSeen (cellNames cols)" by (simp add: firstSeen_def emptyGrid_def)
  moreover have "map Name (Rows grid) = map Name (SliceStable (\<lambda>a b. N (Name a) (Name b)) (Rows g))"
    unfolding 2 sortGrid_def by (simp add: sortMetrics_def comp_def)
  ultimately show ?thesis by (simp add: map_SliceStable)
qed

section \<open>The alerts of a grid depend on its last state only\<close>

lemma foldE_map_sum:
  assumes "\<And>s x. f (h s) x = map_sum id h (f s x)"
  shows "foldE f (h s) xs = map_sum id h (foldE f s xs)"
proof (induction xs arbitrary: s)
  case Nil
  then show ?case by simp
next
  case (Cons x xs)
  then show ?case by (cases "f s x") (simp_all add: assms)
qed

lemma appendCellMetric_clear:
  "appendCellMetric (clearAlert row) nm = map_sum id clearAlert (appendCellMetric row nm)"
  by (cases nm)
    (auto simp: appendCellMetric_def clearAlert_def Let_def split: option.splits sum.splits)

lemma appendCellLoop_clear:
  "appendCellLoop c k (clearAlert row) = map_sum id clearAlert (appendCellLoop c k row)"
proof (induction k arbitrary: row)
  case 0
  then show ?case by simp
next
  case (Suc k)
  have 1: "(clearAlert row)\<lparr>CellIds := CellIds (clearAlert row) @ [cellID c]\<rparr> =
        clearAlert (row\<lparr>CellIds := CellIds row @ [cellID c]\<rparr>)"
    by (simp add: clearAlert_def)
  have 2: "(clearAlert r)\<lparr>Messages := Messages (clearAlert r) @ [message c],
              Icons := Icons (clearAlert r) @ [icon c]\<rparr> =
        clearAlert (r\<lparr>Messages := Messages r @ [message c], Icons := Icons r @ [icon c]\<rparr>)" for r
    by (simp add: clearAlert_def)
  show ?case
  proof (cases "result c = Row_NO_RESULT")
    case True
    then show ?thesis by (simp add: Let_def 1 Suc.IH)
  next
    case False
    then show ?thesis
      by (cases "foldE appendCellMetric (row\<lparr>CellIds := CellIds row @ [cellID c]\<rparr>) (metrics c)")
        (simp_all add: Let_def 1 2 Suc.IH foldE_map_sum[of appendCellMetric clearAlert, OF appendCellMetric_clear])
  qed
qed

lemma appendCell_clear:
  "appendCell (clearAlert row) c n = map_sum id clearAlert (appendCell row c n)"
proof -
  have r: "Results (clearAlert row) = Results row" by (simp add: clearAlert_def)
  have u: "(clearAlert row)\<lparr>Results := x\<rparr> = clearAlert (row\<lparr>Results := x\<rparr>)" for x
    by (simp add: clearAlert_def)
  show ?thesis
    unfolding appendCell_def Let_def r u
    by (auto simp: appendCellLoop_clear split: sum.splits)
qed

lemma modifyRow_strip:
  assumes "\<And>row. f (clearAlert row) = map_sum id clearAlert (f row)"
  shows "modifyRow (stripAlerts grid) addr f = map_sum id stripAlerts (modifyRow grid addr f)"
proof (cases "addr < length (Rows grid)")
  case True
  then show ?thesis
    by (cases "f (Rows grid ! addr)")
      (simp_all add: modifyRow_def stripAlerts_def assms map_update)
next
  case False
  then show ?thesis by (simp add: modifyRow_def stripAlerts_def)
qed

lemma appendColumnCell_strip:
  "appendColumnCell (strip3 st) nc = map_sum id strip3 (appendColumnCell st nc)"
proof -
  obtain grid rows missing where st: "st = (grid, rows, missing)" by (cases st)
  obtain name c where nc: "nc = (name, c)" by (cases nc)
  note m = modifyRow_strip[of "\<lambda>row. appendCell row x n" for x n, OF appendCell_clear]
  show ?thesis
  proof (cases "map_of rows name")
    case (Some addr)
    then show ?thesis
      unfolding st nc
      by (cases "modifyRow grid addr (\<lambda>row. appendCell row c 1)")
        (simp_all add: appendColumnCell_def strip3_def Let_def m)
  next
    case None
    let ?g1 = "grid\<lparr>Rows := Rows grid @ [newRow name]\<rparr>"
    have g1: "(stripAlerts grid)\<lparr>Rows := Rows (stripAlerts grid) @ [newRow name]\<rparr> = stripAlerts ?g1"
      by (simp add: stripAlerts_def clearAlert_def newRow_def)
    have l: "length (Rows (stripAlerts grid)) = length (Rows grid)"
      "Columns (stripAlerts g) = Columns g" for g
      by (simp_all add: stripAlerts_def)
    show ?thesis
    proof (cases "int (length (Columns grid)) > 1")
      case True
      show ?thesis
      proof (cases "modifyRow ?g1 (length (Rows grid))
                      (\<lambda>row. appendCell row emptyCell (int (length (Columns grid)) - 1))")
        case (Inl e)
        with True None show ?thesis
          unfolding st nc by (simp add: appendColumnCell_def strip3_def Let_def g1 l m)
      next
        case (Inr grid2)
        with True None show ?thesis
          unfolding st nc
          by (cases "modifyRow grid2 (length (Rows grid)) (\<lambda>row. appendCell row c 1)")
            (simp_all add: appendColumnCell_def strip3_def Let_def g1 l m)
      qed
    next
      case False
      with None show ?thesis
        unfolding st nc
        by (cases "modifyRow ?g1 (length (Rows grid)) (\<lambda>row. appendCell row c 1)")
          (simp_all add: appendColumnCell_def strip3_def Let_def g1 l m)
    qed
  qed
qed

lemma appendMissing_strip:
  "appendMissing (stripAlerts grid) na = map_sum id stripAlerts (appendMissing grid na)"
  unfolding appendMissing_def
  by (rule modifyRow_strip[of "\<lambda>row. appendCell row emptyCell 1", OF appendCell_clear])

lemma appendColumn_strip:
  "appendColumn (stripAlerts grid) rows col = map_sum id strip2 (appendColumn grid rows col)"
proof -
  let ?g1 = "grid\<lparr>Columns := Columns grid @ [column col]\<rparr>"
  have g1: "(stripAlerts grid)\<lparr>Columns := Columns (stripAlerts grid) @ [column col]\<rparr> = stripAlerts ?g1"
    by (simp add: stripAlerts_def)
  have f1: "foldE appendColumnCell (stripAlerts ?g1, rows, rows) (cells col) =
        map_sum id strip3 (foldE appendColumnCell (?g1, rows, rows) (cells col))"
    using foldE_map_sum[of appendColumnCell strip3 "(?g1, rows, rows)" "cells col",
        OF appendColumnCell_strip]
    by (simp add: strip3_def)
  show ?thesis
  proof (cases "foldE appendColumnCell (?g1, rows, rows) (cells col)")
    case (Inl e)
    then show ?thesis by (simp add: appendColumn_def Let_def g1 f1)
  next
    case (Inr st2)
    obtain grid2 rows2 missing where st2: "st2 = (grid2, rows2, missing)" by (cases st2)
    have f2: "foldE appendMissing (stripAlerts grid2) missing =
        map_sum id stripAlerts (foldE appendMissing grid2 missing)"
      by (rule foldE_map_sum[of appendMissing stripAlerts, OF appendMissing_strip])
    show ?thesis
      using Inr st2
      by (cases "foldE appendMissing grid2 missing")
        (simp_all add: appendColumn_def Let_def g1 f1 f2 strip3_def strip2_def)
  qed
qed

lemma alertRow_clear: "alertRow cols (clearAlert row) f p = alertRow cols row f p"
  by (simp add: alertRow_def clearAlert_def cong: option.case_cong sum.case_cong if_cong)

lemma alertRows_cong:
  "map clearAlert rs' = map clearAlert rs \<Longrightarrow> alertRows cols rs' f p = alertRows cols rs f p"
proof (induction rs arbitrary: rs')
  case Nil
  then show ?case by simp
next
  case (Cons r rs)
  then obtain r' rs'' where rs': "rs' = r' # rs''" and r: "clearAlert r' = clearAlert r"
    and rest: "map clearAlert rs'' = map clearAlert rs"
    by (cases rs') auto
  from r have 1: "alertRow cols r' f p = alertRow cols r f p"
    by (metis alertRow_clear)
  have 2: "r'\<lparr>AlertInfo := a\<rparr> = r\<lparr>AlertInfo := a\<rparr>" for a
  proof -
    have "r'\<lparr>AlertInfo := a\<rparr> = (clearAlert r')\<lparr>AlertInfo := a\<rparr>"
      by (simp add: clearAlert_def)
    also have "\<dots> = (clearAlert r)\<lparr>AlertInfo := a\<rparr>" by (simp only: r)
    also have "\<dots> = r\<lparr>AlertInfo := a\<rparr>" by (simp add: clearAlert_def)
    finally show ?thesis .
  qed
  show ?case unfolding rs' by (simp add: 1 2 Cons.IH[OF rest] cong: sum.case_cong)
qed

lemma alertRows_clear_result:
  "alertRows cols rs f p = Inr rs' \<Longrightarrow> map clearAlert rs' = map clearAlert rs"
proof (induction rs arbitrary: rs')
  case Nil
  then show ?case by simp
next
  case (Cons r rs)
  then show ?case by (auto simp: clearAlert_def split: sum.splits)
qed

lemma alertRows_fixed:
  assumes "alertRows cols rs f p = Inr rs'"
  shows "alertRows cols rs' f p = Inr rs'"
  using alertRows_cong[OF alertRows_clear_result[OF assms]] assms by simp

lemma stripAlerts_rows:
  "map clearAlert rs = map clearAlert (Rows g) \<Longrightarrow> stripAlerts (g\<lparr>Rows := rs\<rparr>) = stripAlerts g"
  by (simp add: stripAlerts_def)

lemma constructStep_strip:
  assumes "constructStep f p st col = Inr st'"
  shows "appendOnly (strip2 st) col = Inr (strip2 st')"
proof -
  obtain grid rows where st: "st = (grid, rows)" by (cases st)
  from assms st obtain grid1 rows1 rs where 1: "appendColumn grid rows col = Inr (grid1, rows1)"
    and 2: "alertRows (Columns grid1) (Rows grid1) f p = Inr rs"
    and 3: "st' = (grid1\<lparr>Rows := rs\<rparr>, rows1)"
    by (auto simp: constructStep_def split: sum.splits prod.splits)
  from stripAlerts_rows[OF alertRows_clear_result[OF 2]] 1 3 st show ?thesis
    by (simp add: appendOnly_def strip2_def appendColumn_strip)
qed

lemma foldE_constructStep_strip:
  "foldE (constructStep f p) st cols = Inr st' \<Longrightarrow> foldE appendOnly (strip2 st) cols = Inr (strip2 st')"
proof (induction cols arbitrary: st)
  case Nil
  then show ?case by simp
next
  case (Cons col cols)
  from Cons.prems obtain st1 where 1: "constructStep f p st col = Inr st1"
    and 2: "foldE (constructStep f p) st1 cols = Inr st'"
    by (auto split: sum.splits)
  from constructStep_strip[OF 1] Cons.IH[OF 2] show ?case by simp
qed

lemma constructStep_alerted:
  assumes "constructStep f p st col = Inr st'"
  shows "alerted f p (fst st')"
proof -
  obtain grid rows where st: "st = (grid, rows)" by (cases st)
  from assms st obtain grid1 rows1 rs where
    2: "alertRows (Columns grid1) (Rows grid1) f p = Inr rs"
    and 3: "st' = (grid1\<lparr>Rows := rs\<rparr>, rows1)"
    by (auto simp: constructStep_def split: sum.splits prod.splits)
  from alertRows_fixed[OF 2] 3 show ?thesis by (simp add: alerted_def)
qed

lemma foldE_constructStep_alerted:
  assumes "foldE (constructStep f p) (emptyGrid, []) cols = Inr st'"
  shows "alerted f p (fst st')"
proof (rule foldE_invariant[of "\<lambda>st. alerted f p (fst st)" "constructStep f p", OF _ _ assms])
  show "alerted f p (fst (emptyGrid, []))" by (simp add: alerted_def emptyGrid_def)
  show "alerted f p (fst s')" if "constructStep f p s x = Inr s'" for s x s'
    using constructStep_alerted[OF that] .
qed

lemma stripAlerts_restore: "(stripAlerts g)\<lparr>Rows := Rows g\<rparr> = g"
  by (simp add: stripAlerts_def)

lemma alerted_strip:
  assumes "alerted f p g"
  shows "alertRows (Columns (stripAlerts g)) (Rows (stripAlerts g)) f p = Inr (Rows g)"
proof -
  have "map clearAlert (Rows (stripAlerts g)) = map clearAlert (Rows g)"
    by (simp add: stripAlerts_def clearAlert_def)
  from alertRows_cong[OF this] assms show ?thesis
    by (simp add: alerted_def stripAlerts_def)
qed

lemma alertRows_intro:
  "list_all2 (\<lambda>r r'. \<exists>a. alertRow cols r f p = Inr a \<and> r' = r\<lparr>AlertInfo := a\<rparr>) rs rs' \<Longrightarrow>
   alertRows cols rs f p = Inr rs'"
  by (induction rs rs' rule: list_all2_induct) auto

lemma alerted_rows:
  assumes "alerted f p g" and "r \<in> set (Rows g)"
  shows "alertRow (Columns g) r f p = Inr (AlertInfo r)"
proof -
  from assms(2) obtain i where i: "i < length (Rows g)" "r = Rows g ! i"
    by (auto simp: in_set_conv_nth)
  from alertRows_frame[OF assms(1)[unfolded alerted_def]] i obtain a where
    a: "alertRow (Columns g) r f p = Inr a" "r = r\<lparr>AlertInfo := a\<rparr>"
    by (auto simp: list_all2_conv_all_nth)
  from a(2) have "AlertInfo r = a" by (metis state_Row.select_convs(9) state_Row.surjective state_Row.update_convs(9))
  with a(1) show ?thesis by simp
qed

lemma alertRow_sortMetrics: "alertRow cols (sortMetrics N row) f p = alertRow cols row f p"
  by (simp add: alertRow_def sortMetrics_def cong: option.case_cong sum.case_cong if_cong)

lemma insertStable_map_same_key:
  assumes "\<And>x. key (g x) = key x"
  shows "map g (insertStable (\<lambda>a b. lt (key a) (key b)) x ys) =
         insertStable (\<lambda>a b. lt (key a) (key b)) (g x) (map g ys)"
  by (induction ys) (auto simp: assms)

lemma SliceStable_map_same_key:
  assumes "\<And>x. key (g x) = key x"
  shows "map g (SliceStable (\<lambda>a b. lt (key a) (key b)) xs) =
         SliceStable (\<lambda>a b. lt (key a) (key b)) (map g xs)"
  by (induction xs) (auto simp: insertStable_map_same_key[of key g, OF assms])

lemma alerted_sortGrid_strip:
  assumes "alerted f p g"
  shows "alertRows (Columns (sortGrid N (stripAlerts g))) (Rows (sortGrid N (stripAlerts g))) f p =
         Inr (Rows (sortGrid N g))"
proof (rule alertRows_intro)
  let ?byName = "\<lambda>a b. N (Name a) (Name b)"
  let ?zs = "SliceStable ?byName (Rows g)"
  have "SliceStable ?byName (map clearAlert (Rows g)) = map clearAlert ?zs"
    by (rule SliceStable_map_same_key[of Name clearAlert, symmetric]) (simp add: clearAlert_def)
  then have xs: "Rows (sortGrid N (stripAlerts g)) = map (\<lambda>z. sortMetrics N (clearAlert z)) ?zs"
    by (simp add: sortGrid_def stripAlerts_def)
  have ys: "Rows (sortGrid N g) = map (sortMetrics N) ?zs" by (simp add: sortGrid_def)
  have cols: "Columns (sortGrid N (stripAlerts g)) = Columns g"
    by (simp add: sortGrid_def stripAlerts_def)
  have "\<exists>a. alertRow (Columns g) (sortMetrics N (clearAlert z)) f p = Inr a \<and>
            sortMetrics N z = (sortMetrics N (clearAlert z))\<lparr>AlertInfo := a\<rparr>"
    if "z \<in> set ?zs" for z
  proof -
    from that have "z \<in> set (Rows g)" by (simp add: set_SliceStable)
    from alerted_rows[OF assms this]
    have "alertRow (Columns g) (sortMetrics N (clearAlert z)) f p = Inr (AlertInfo z)"
      by (simp add: alertRow_sortMetrics alertRow_clear)
    moreover have "sortMetrics N z = (sortMetrics N (clearAlert z))\<lparr>AlertInfo := AlertInfo z\<rparr>"
      by (simp add: sortMetrics_def clearAlert_def)
    ultimately show ?thesis by blast
  qed
  then show "list_all2 (\<lambda>r r'. \<exists>a. alertRow (Columns (sortGrid N (stripAlerts g))) r f p = Inr a \<and>
                r' = r\<lparr>AlertInfo := a\<rparr>)
       (Rows (sortGrid N (stripAlerts g))) (Rows (sortGrid N g))"
    unfolding xs ys cols by (simp add: list_all2_map1 list_all2_map2 list_all2_same)
qed

lemma sortGrid_restore: "(sortGrid N (stripAlerts g))\<lparr>Rows := Rows (sortGrid N g)\<rparr> = sortGrid N g"
  by (simp add: sortGrid_def stripAlerts_def)










lemma constructGrid_alerts:
  assumes "constructGrid N grp cols = Inr grid"
  shows "\<forall>r \<in> set (Rows grid).
           alertRow (Columns grid) r (NumFailuresToAlert grp)
             (if NumFailuresToAlert grp > 0 \<and> NumPassesToDisableAlert grp = 0 then 1
              else NumPassesToDisableAlert grp) = Inr (AlertInfo r)"
proof
  let ?f = "NumFailuresToAlert grp"
  let ?p = "if ?f > 0 \<and> NumPassesToDisableAlert grp = 0 then 1 else NumPassesToDisableAlert grp"
  fix r assume r: "r \<in> set (Rows grid)"
  from assms obtain g rows where
    1: "foldE (constructStep ?f ?p) (emptyGrid, []) cols = Inr (g, rows)"
    and 2: "grid = sortGrid N g"
    by (auto simp: constructGrid_def Let_def split: sum.splits prod.splits)
  from foldE_constructStep_alerted[OF 1] have 4: "alerted ?f ?p g" by simp
  from r 2 obtain r0 where r0: "r0 \<in> set (Rows g)" "r = sortMetrics N r0"
    by (auto simp: sortGrid_def set_SliceStable)
  have c: "Columns grid = Columns g" using 2 by (simp add: sortGrid_def)
  have ai: "AlertInfo r = AlertInfo r0" using r0(2) by (simp add: sortMetrics_def)
  have "alertRow (Columns grid) r ?f ?p = alertRow (Columns g) r0 ?f ?p"
    unfolding c r0(2) by (rule alertRow_sortMetrics)
  also have "\<dots> = Inr (AlertInfo r0)" by (rule alerted_rows[OF 4 r0(1)])
  finally show "alertRow (Columns grid) r ?f ?p = Inr (AlertInfo r)" by (simp only: ai)
qed

section \<open>The rows of a grid and its columns\<close>

lemma exGrid_eval: "constructGrid exLess exGroup exCols = Inr exGrid"
  by code_simp

lemma exColsLate_eval:
  "constructGrid exLess exGroup exColsLate = Inr (projr (constructGrid exLess exGroup exColsLate))"
  by code_simp

lemma exCols_distinct: "\<forall>col \<in> set exCols. distinct (map fst (cells col))"
  by (simp add: exCols_def)

lemma exColsLate_distinct: "\<forall>col \<in> set exColsLate. distinct (map fst (cells col))"
  by (simp add: exColsLate_def)

text \<open>
  Claim C1, as the code has it. In every grid \<open>constructGrid\<close> returns, every row has one
  cell id per column, and as many messages as icons: one for each column in which the
  row has a cell whose result is not NO_RESULT, so at most one per column. (The cells of
  a column are a map, so their names are distinct.) The claim's equality of the four
  lengths fails, since \<open>appendCell\<close> skips the messages and icons of a NO_RESULT cell.
\<close>

theorem constructGrid_side_arrays:
  assumes "constructGrid NaturalLess grp cols = Inr grid"
    and "\<forall>col \<in> set cols. distinct (map fst (cells col))"
  shows "\<forall>row \<in> set (Rows grid).
           length (CellIds row) = length (Columns grid) \<and>
           length (Messages row) = length (Icons row) \<and>
           length (Messages row) =
             length (filter (\<lambda>col. result (cellAt col (Name row)) \<noteq> Row_NO_RESULT) cols) \<and>
           length (Messages row) \<le> length (Columns grid)"
proof
  fix row assume "row \<in> set (Rows grid)"
  with constructGrid_rows[OF assms] have c: "Columns grid = map column cols"
    and r: "rowOf (expected cols (Name row)) row" by simp_all
  have "length (filter hasResult (expected cols (Name row))) =
        length (filter (\<lambda>col. result (cellAt col (Name row)) \<noteq> Row_NO_RESULT) cols)"
    by (simp add: expected_def filter_map comp_def hasResult_def)
  moreover have "length (filter hasResult (expected cols (Name row))) \<le> length cols"
    by (metis length_filter_le length_map expected_def)
  ultimately show "length (CellIds row) = length (Columns grid) \<and>
           length (Messages row) = length (Icons row) \<and>
           length (Messages row) =
             length (filter (\<lambda>col. result (cellAt col (Name row)) \<noteq> Row_NO_RESULT) cols) \<and>
           length (Messages row) \<le> length (Columns grid)"
    using c r by (simp add: rowOf_def expected_def)
qed

theorem constructGrid_side_arrays_witness:
  "constructGrid exLess exGroup exCols = Inr exGrid \<and>
   distinct (map fst (cells (exCols ! 0))) \<and> distinct (map fst (cells (exCols ! 1))) \<and>
   Name (Rows exGrid ! 1) = ''t2'' \<and>
   length (CellIds (Rows exGrid ! 1)) = length (Columns exGrid) \<and>
   length (Messages (Rows exGrid ! 1)) = length (Icons (Rows exGrid ! 1)) \<and>
   length (Messages (Rows exGrid ! 1)) =
     length (filter (\<lambda>col. result (cellAt col ''t2'') \<noteq> Row_NO_RESULT) exCols) \<and>
   length (Messages (Rows exGrid ! 1)) = 1"
proof -
  have row: "Rows exGrid ! 1 \<in> set (Rows exGrid)" by (simp add: exGrid_def)
  have name: "Name (Rows exGrid ! 1) = ''t2''" by (simp add: exGrid_def newRow_def)
  have "distinct (map fst (cells (exCols ! 0)))" "distinct (map fst (cells (exCols ! 1)))"
    "length (Messages (Rows exGrid ! 1)) = 1"
    by (simp_all add: exCols_def exGrid_def)
  with constructGrid_side_arrays[OF exGrid_eval exCols_distinct, THEN bspec, OF row]
    exGrid_eval name
  show ?thesis by simp
qed

theorem constructGrid_side_arrays_counterexample:
  "constructGrid exLess exGroup exCols = Inr exGrid \<and>
   length (Columns exGrid) = 2 \<and> length (CellIds (Rows exGrid ! 1)) = 2 \<and>
   length (Messages (Rows exGrid ! 1)) = 1 \<and> length (Icons (Rows exGrid ! 1)) = 1 \<and>
   length (Messages (Rows exGrid ! 1)) \<noteq> length (Columns exGrid)"
  using exGrid_eval by (simp add: exGrid_def)

text \<open>
  Claim C2. In every grid \<open>constructGrid\<close> returns for fewer than \<open>2^31\<close> columns (an
  \<open>int32\<close> run length wraps beyond), the results of every row decode to one result per
  column, and the run lengths sum up to the number of columns. The decoded result at a
  column is that of the row's cell in the column and NO_RESULT where the column has no
  cell for the row: so a row created at a later column starts with one empty cell for each
  earlier column, and a row missing from a column receives one empty cell.
\<close>

theorem constructGrid_results_cover:
  assumes "constructGrid NaturalLess grp cols = Inr grid"
    and "\<forall>col \<in> set cols. distinct (map fst (cells col))"
    and "length cols < 2 ^ 31"
  shows "\<forall>row \<in> set (Rows grid).
           length (Iter (Results row)) = length (Columns grid) \<and>
           runSum (Results row) = int (length (Columns grid)) \<and>
           Iter (Results row) = map (\<lambda>col. result (cellAt col (Name row))) cols \<and>
           (\<forall>i < length cols. Name row \<notin> fst ` set (cells (cols ! i)) \<longrightarrow>
              Iter (Results row) ! i = Row_NO_RESULT)"
proof
  fix row assume "row \<in> set (Rows grid)"
  with constructGrid_rows[OF assms(1,2)] have c: "Columns grid = map column cols"
    and r: "rowOf (expected cols (Name row)) row" by simp_all
  from assms(3) have "int (length (expected cols (Name row))) < 2 ^ 31"
    by (simp add: expected_def)
  with r have rp: "runsPositive (Results row)"
    and it: "Iter (Results row) = map (\<lambda>col. result (cellAt col (Name row))) cols"
    by (simp_all add: rowOf_def expected_def)
  have "Iter (Results row) ! i = Row_NO_RESULT"
    if "i < length cols" "Name row \<notin> fst ` set (cells (cols ! i))" for i
    using that it by (simp add: cellAt_absent emptyCell_def)
  with Iter_length[OF rp] it c
  show "length (Iter (Results row)) = length (Columns grid) \<and>
           runSum (Results row) = int (length (Columns grid)) \<and>
           Iter (Results row) = map (\<lambda>col. result (cellAt col (Name row))) cols \<and>
           (\<forall>i < length cols. Name row \<notin> fst ` set (cells (cols ! i)) \<longrightarrow>
              Iter (Results row) ! i = Row_NO_RESULT)"
    by simp
qed

theorem constructGrid_results_cover_witness:
  "constructGrid exLess exGroup exCols = Inr exGrid \<and> length exCols < 2 ^ 31 \<and>
   distinct (map fst (cells (exCols ! 0))) \<and> distinct (map fst (cells (exCols ! 1))) \<and>
   Results (Rows exGrid ! 1) = [Row_FAIL, 1, Row_NO_RESULT, 1] \<and>
   Iter (Results (Rows exGrid ! 1)) = [Row_FAIL, Row_NO_RESULT] \<and>
   runSum (Results (Rows exGrid ! 1)) = int (length (Columns exGrid)) \<and>
   Name (Rows (projr (constructGrid exLess exGroup exColsLate)) ! 1) = ''t2'' \<and>
   Results (Rows (projr (constructGrid exLess exGroup exColsLate)) ! 1) =
     [Row_NO_RESULT, 2, Row_FAIL, 1] \<and>
   length (Iter (Results (Rows (projr (constructGrid exLess exGroup exColsLate)) ! 1))) =
     length (Columns (projr (constructGrid exLess exGroup exColsLate)))"
proof -
  have late: "Rows (projr (constructGrid exLess exGroup exColsLate)) ! 1 =
      (newRow ''t2'')\<lparr>Results := [Row_NO_RESULT, 2, Row_FAIL, 1], CellIds := [[], [], ''b1''],
        Messages := [''m''], Icons := [''i''],
        AlertInfo := Some \<lparr>FailCount = 1, FailBuildId = ''b1'',
          FailTime = Some \<lparr>Seconds = 0, Nanos = 0\<rparr>, FailTestId = [],
          FailureMessage = ''m'', PassTime = None, PassBuildId = []\<rparr>\<rparr>"
    and cols: "length (Columns (projr (constructGrid exLess exGroup exColsLate))) = 3"
    by code_simp+
  have len: "length exColsLate < 2 ^ 31" "length exCols < 2 ^ 31"
    by (simp_all add: exColsLate_def exCols_def)
  have row: "Rows exGrid ! 1 \<in> set (Rows exGrid)" by (simp add: exGrid_def)
  have rowL: "Rows (projr (constructGrid exLess exGroup exColsLate)) ! 1 \<in>
      set (Rows (projr (constructGrid exLess exGroup exColsLate)))"
    by code_simp
  have facts: "distinct (map fst (cells (exCols ! 0)))" "distinct (map fst (cells (exCols ! 1)))"
    "Results (Rows exGrid ! 1) = [Row_FAIL, 1, Row_NO_RESULT, 1]"
    "Iter [Row_FAIL, 1, Row_NO_RESULT, 1] = [Row_FAIL, Row_NO_RESULT]"
    by (simp_all add: exCols_def exGrid_def)
  have lateName: "Name (Rows (projr (constructGrid exLess exGroup exColsLate)) ! 1) = ''t2''"
    and lateResults: "Results (Rows (projr (constructGrid exLess exGroup exColsLate)) ! 1) =
      [Row_NO_RESULT, 2, Row_FAIL, 1]"
    unfolding late by (simp_all add: newRow_def)
  from constructGrid_results_cover[OF exGrid_eval exCols_distinct len(2), THEN bspec, OF row]
    constructGrid_results_cover[OF exColsLate_eval exColsLate_distinct len(1), THEN bspec, OF rowL]
    exGrid_eval facts lateName lateResults len(2) cols
  show ?thesis by (simp add: exColsLate_def)
qed

section \<open>The order of rows and metrics\<close>

lemma exLess_strictWeakOrder: "strictWeakOrder exLess"
  by (auto simp: strictWeakOrder_def exLess_def)

lemma exColsSort_eval:
  "constructGrid exLess exGroup exColsSort = Inr (projr (constructGrid exLess exGroup exColsSort))"
  by code_simp

text \<open>
  Claim C7. When \<open>NaturalLess\<close> is a strict weak order, in every grid \<open>constructGrid\<close>
  returns the rows are sorted by name; their names are the stable sort of the names in
  the order of their first appearance, so rows whose names are tied keep that order; and
  in every row the metric names and the metric series are sorted by name, the name of the
  series at each index being the metric name at that index.
\<close>

theorem constructGrid_sorted:
  assumes "constructGrid NaturalLess grp cols = Inr grid" and "strictWeakOrder NaturalLess"
  shows "sortedBy (\<lambda>a b. NaturalLess (Name a) (Name b)) (Rows grid) \<and>
         map Name (Rows grid) = SliceStable NaturalLess (firstSeen (cellNames cols)) \<and>
         (\<forall>k. filter (\<lambda>n. tied NaturalLess n k) (map Name (Rows grid)) =
              filter (\<lambda>n. tied NaturalLess n k) (firstSeen (cellNames cols))) \<and>
         (\<forall>row \<in> set (Rows grid).
            sortedBy NaturalLess (Metric row) \<and>
            sortedBy (\<lambda>a b. NaturalLess (mName a) (mName b)) (Metrics row) \<and>
            map mName (Metrics row) = Metric row)"
proof -
  have "\<exists>g. grid = sortGrid NaturalLess g \<and> (\<forall>r \<in> set (Rows g). metricsNamed r)"
    by (rule constructGrid_allRows[of metricsNamed, OF _ _ _ assms(1)])
      (fact appendCell_named metricsNamed_facts)+
  then obtain g where g: "grid = sortGrid NaturalLess g"
    and named: "\<forall>r \<in> set (Rows g). metricsNamed r"
    by blast
  let ?byName = "\<lambda>a b. NaturalLess (Name a) (Name b)"
  have nm: "Name (sortMetrics NaturalLess r) = Name r" for r by (simp add: sortMetrics_def)
  have "sortedBy ?byName (SliceStable ?byName (Rows g))"
    by (rule sorted_SliceStable[OF strictWeakOrder_key[OF assms(2)]])
  then have rows: "sortedBy ?byName (Rows grid)"
    unfolding g sortGrid_def sortedBy_def by (simp add: sorted_wrt_map nm)
  note names = constructGrid_names[OF assms(1)]
  have stable: "filter (\<lambda>n. tied NaturalLess n k) (map Name (Rows grid)) =
      filter (\<lambda>n. tied NaturalLess n k) (firstSeen (cellNames cols))" for k
    unfolding names by (rule filter_SliceStable[OF assms(2)])
  have "sortedBy NaturalLess (Metric row) \<and>
        sortedBy (\<lambda>a b. NaturalLess (mName a) (mName b)) (Metrics row) \<and>
        map mName (Metrics row) = Metric row" if "row \<in> set (Rows grid)" for row
  proof -
    from that g obtain r0 where r0: "r0 \<in> set (Rows g)" "row = sortMetrics NaturalLess r0"
      by (auto simp: sortGrid_def set_SliceStable)
    from named r0(1) have "map mName (Metrics r0) = Metric r0" by (simp add: metricsNamed_def)
    with r0(2) show ?thesis
      using sorted_SliceStable[OF assms(2), of "Metric r0"]
        sorted_SliceStable[OF strictWeakOrder_key[OF assms(2)], of mName "Metrics r0"]
        map_SliceStable[of mName NaturalLess "Metrics r0"]
      by (simp add: sortMetrics_def)
  qed
  with rows names stable show ?thesis by blast
qed

theorem constructGrid_sorted_witness:
  "strictWeakOrder exLess \<and>
   constructGrid exLess exGroup exColsSort =
     Inr (projr (constructGrid exLess exGroup exColsSort)) \<and>
   firstSeen (cellNames exColsSort) = [''t10'', ''t3'', ''t2''] \<and>
   map Name (Rows (projr (constructGrid exLess exGroup exColsSort))) = [''t3'', ''t2'', ''t10''] \<and>
   Metric (Rows (projr (constructGrid exLess exGroup exColsSort)) ! 2) = [''cpu'', ''latency''] \<and>
   map mName (Metrics (Rows (projr (constructGrid exLess exGroup exColsSort)) ! 2)) =
     [''cpu'', ''latency'']"
proof -
  have ev: "firstSeen (cellNames exColsSort) = [''t10'', ''t3'', ''t2'']"
    "SliceStable exLess [''t10'', ''t3'', ''t2''] = [''t3'', ''t2'', ''t10'']"
    "Metric (Rows (projr (constructGrid exLess exGroup exColsSort)) ! 2) = [''cpu'', ''latency'']"
    "Rows (projr (constructGrid exLess exGroup exColsSort)) ! 2 \<in>
       set (Rows (projr (constructGrid exLess exGroup exColsSort)))"
    by code_simp+
  from constructGrid_sorted[OF exColsSort_eval exLess_strictWeakOrder]
  have "map Name (Rows (projr (constructGrid exLess exGroup exColsSort))) =
      SliceStable exLess (firstSeen (cellNames exColsSort))"
    and "\<forall>row \<in> set (Rows (projr (constructGrid exLess exGroup exColsSort))).
      map mName (Metrics row) = Metric row"
    by blast+
  with ev exLess_strictWeakOrder exColsSort_eval show ?thesis by simp
qed

section \<open>Alerts: configuration, RUNNING results, and the alert-once variants\<close>

text \<open>
  Claim C9. Whenever \<open>constructGrid\<close>, which alerts every row after each appended column,
  returns a grid, the variant that appends all the columns and alerts the rows once
  returns the same grid, whether it alerts them right after the fold or after the sorts:
  each call of \<open>alertRows\<close> overwrites the alert of every row and reads none.
\<close>

theorem constructGrid_alert_once:
  assumes "constructGrid NaturalLess grp cols = Inr grid"
  shows "constructGrid_alertOnce NaturalLess grp cols = Inr grid \<and>
         constructGrid_alertLast NaturalLess grp cols = Inr grid"
proof -
  let ?f = "NumFailuresToAlert grp"
  let ?p = "if ?f > 0 \<and> NumPassesToDisableAlert grp = 0 then 1 else NumPassesToDisableAlert grp"
  from assms obtain g rows where
    1: "foldE (constructStep ?f ?p) (emptyGrid, []) cols = Inr (g, rows)"
    and 2: "grid = sortGrid NaturalLess g"
    by (auto simp: constructGrid_def Let_def split: sum.splits prod.splits)
  have e: "strip2 (emptyGrid, []) = (emptyGrid, [])"
    by (simp add: strip2_def stripAlerts_def emptyGrid_def)
  from foldE_constructStep_strip[OF 1] e
  have 3: "foldE appendOnly (emptyGrid, []) cols = Inr (stripAlerts g, rows)"
    by (simp add: strip2_def)
  from foldE_constructStep_alerted[OF 1] have 4: "alerted ?f ?p g" by simp
  from 3 alerted_strip[OF 4] 2 have "constructGrid_alertOnce NaturalLess grp cols = Inr grid"
    by (simp add: constructGrid_alertOnce_def Let_def stripAlerts_restore)
  moreover from 3 alerted_sortGrid_strip[OF 4, of NaturalLess] 2
  have "constructGrid_alertLast NaturalLess grp cols = Inr grid"
    by (simp add: constructGrid_alertLast_def Let_def sortGrid_restore)
  ultimately show ?thesis ..
qed

theorem constructGrid_alert_once_witness:
  "constructGrid exLess exGroup exCols = Inr exGrid \<and>
   constructGrid_alertOnce exLess exGroup exCols = Inr exGrid \<and>
   constructGrid_alertLast exLess exGroup exCols = Inr exGrid"
  using constructGrid_alert_once[OF exGrid_eval] exGrid_eval by simp

text \<open>
  The converse needs alerts that cannot fail. With a negative \<open>NumFailuresToAlert\<close> the
  test \<open>failures < failuresToOpen\<close> never holds, \<open>alertRow\<close> reads \<open>row.Messages[0]\<close> of
  a row that has no message yet, and \<open>constructGrid\<close> panics at a column where the
  variant has not alerted anything.
\<close>

lemma alertOnce_converse_fails:
  "constructGrid exLess \<lparr>NumFailuresToAlert = - 1, NumPassesToDisableAlert = 0\<rparr>
     [\<lparr>column = exColumn ''b2'', cells = [(''t1'', exCell Row_NO_RESULT ''b2'')]\<rparr>,
      \<lparr>column = exColumn ''b1'', cells = [(''t1'', exCell Row_PASS ''b1'')]\<rparr>] =
     Inl IndexOutOfRange \<and>
   constructGrid_alertOnce exLess \<lparr>NumFailuresToAlert = - 1, NumPassesToDisableAlert = 0\<rparr>
     [\<lparr>column = exColumn ''b2'', cells = [(''t1'', exCell Row_NO_RESULT ''b2'')]\<rparr>,
      \<lparr>column = exColumn ''b1'', cells = [(''t1'', exCell Row_PASS ''b1'')]\<rparr>] \<noteq>
     Inl IndexOutOfRange"
  by code_simp




text \<open>
  Claim C8. With \<open>failuresToOpen = 0\<close> \<open>alertRow\<close> returns nil at once, for every row
  and all columns. When the group's \<open>NumFailuresToAlert\<close> is positive and its
  \<open>NumPassesToDisableAlert\<close> is 0, \<open>constructGrid\<close> runs its loop with \<open>passesClose = 1\<close>,
  and the alert of every row of the grid it returns is the one \<open>alertRow\<close> computes from
  the grid's columns with \<open>passesToClose = 1\<close>.
\<close>

theorem alert_configuration_policy:
  "alertRow cols row 0 passesToClose = Inr None \<and>
   (0 < NumFailuresToAlert grp \<and> NumPassesToDisableAlert grp = 0 \<longrightarrow>
      constructGrid NaturalLess grp cols' =
        (case foldE (constructStep (NumFailuresToAlert grp) 1) (emptyGrid, []) cols' of
           Inl e \<Rightarrow> Inl e
         | Inr st \<Rightarrow> Inr (sortGrid NaturalLess (fst st))) \<and>
      (\<forall>grid. constructGrid NaturalLess grp cols' = Inr grid \<longrightarrow>
         (\<forall>r \<in> set (Rows grid).
            alertRow (Columns grid) r (NumFailuresToAlert grp) 1 = Inr (AlertInfo r))))"
proof (intro conjI impI allI)
  show "alertRow cols row 0 passesToClose = Inr None" by (simp add: alertRow_def)
next
  assume a: "0 < NumFailuresToAlert grp \<and> NumPassesToDisableAlert grp = 0"
  then show "constructGrid NaturalLess grp cols' =
        (case foldE (constructStep (NumFailuresToAlert grp) 1) (emptyGrid, []) cols' of
           Inl e \<Rightarrow> Inl e
         | Inr st \<Rightarrow> Inr (sortGrid NaturalLess (fst st)))"
    by (simp add: constructGrid_def Let_def split: sum.splits prod.splits)
  fix grid assume "constructGrid NaturalLess grp cols' = Inr grid"
  from constructGrid_alerts[OF this] a
  show "\<forall>r \<in> set (Rows grid).
            alertRow (Columns grid) r (NumFailuresToAlert grp) 1 = Inr (AlertInfo r)"
    by simp
qed

theorem alert_configuration_policy_witness:
  "alertRow (map exColumn [''b2'', ''b1'']) (exRow [Row_FAIL, 2]) 0 1 = Inr None \<and>
   0 < NumFailuresToAlert exGroup \<and> NumPassesToDisableAlert exGroup = 0 \<and>
   constructGrid exLess exGroup exCols = Inr exGrid \<and>
   alertRow (Columns exGrid) (Rows exGrid ! 1) 1 1 = Inr (AlertInfo (Rows exGrid ! 1)) \<and>
   FailCount (the (AlertInfo (Rows exGrid ! 1))) = 1"
proof -
  have g: "0 < NumFailuresToAlert exGroup \<and> NumPassesToDisableAlert exGroup = 0"
    "NumFailuresToAlert exGroup = 1"
    by (simp_all add: exGroup_def)
  have row: "Rows exGrid ! 1 \<in> set (Rows exGrid)"
    and fc: "FailCount (the (AlertInfo (Rows exGrid ! 1))) = 1"
    by (simp_all add: exGrid_def)
  from alert_configuration_policy[of "map exColumn [''b2'', ''b1'']" "exRow [Row_FAIL, 2]" 1
      exGroup exLess exCols]
  have "alertRow (map exColumn [''b2'', ''b1'']) (exRow [Row_FAIL, 2]) 0 1 = Inr None"
    and "\<forall>r \<in> set (Rows exGrid).
      alertRow (Columns exGrid) r (NumFailuresToAlert exGroup) 1 = Inr (AlertInfo r)"
    using g(1) exGrid_eval by blast+
  with row g fc exGrid_eval show ?thesis by simp
qed

end
